theory Spec2Isabelle
  imports Main "HOL-Library.Word" "HOL-Library.AList"
begin

section \<open>Values shared by all packages\<close>

text \<open>
  A Go \<^verbatim>\<open>string\<close> is an immutable sequence of bytes, and so is the content of a
  \<^verbatim>\<open>[]byte\<close>; both are modelled by \<^typ>\<open>string\<close>, whose characters are 8-bit values.
  The conversions \<^verbatim>\<open>[]byte(s)\<close> and \<^verbatim>\<open>string(b)\<close> are then the identity on contents.
  Go's \<^verbatim>\<open>int\<close> is the 64-bit two's complement integer of the platforms the service
  runs on; it is modelled by \<^typ>\<open>64 word\<close>, read through \<^const>\<open>sint\<close>.
\<close>

type_synonym bytes = string
type_synonym go_int = "64 word"

text \<open>
  Error values. \<open>New m\<close> is \<^verbatim>\<open>errors.New(m)\<close> (and \<^verbatim>\<open>fmt.Errorf\<close> without \<^verbatim>\<open>%w\<close>),
  \<open>Wrap m e\<close> is \<^verbatim>\<open>fmt.Errorf(m + ": %w", e)\<close>, and \<open>NumError f s k\<close> is
  \<^verbatim>\<open>&strconv.NumError{Func: f, Num: s, Err: k}\<close>.
\<close>

datatype numerr = ErrSyntax | ErrRange

datatype error =
    New string
  | Wrap string error
  | NumError string string numerr

section \<open>Library functions used by package domain\<close>

subsection \<open>fmt: the verb \<^verbatim>\<open>%d\<close>\<close>

definition digit_char :: "nat \<Rightarrow> char" where
  "digit_char d = ''0123456789'' ! d"

fun decimal :: "nat \<Rightarrow> string" where
  "decimal n = (if n < 10 then [digit_char n] else decimal (n div 10) @ [digit_char (n mod 10)])"

declare decimal.simps [simp del]

definition Itoa :: "int \<Rightarrow> string" where
  "Itoa i = (if i < 0 then CHR ''-'' # decimal (nat (- i)) else decimal (nat i))"

subsection \<open>strconv.Atoi\<close>

text \<open>
  \<^verbatim>\<open>strconv.Atoi(s)\<close> is \<^verbatim>\<open>ParseInt(s, 10, 0)\<close> converted to \<^verbatim>\<open>int\<close> (its fast path for
  short inputs computes the same result). \<open>ParseUint_loop\<close> is the digit loop of
  \<^verbatim>\<open>ParseUint\<close> for base 10 and 64 bits: a byte that is not a decimal digit is a syntax
  error, an accumulator that would leave the unsigned 64-bit range is a range error,
  whichever comes first from the left.
\<close>

definition is_digit :: "char \<Rightarrow> bool" where
  "is_digit c = (48 \<le> (of_char c :: nat) \<and> (of_char c :: nat) \<le> 57)"

definition maxUint64 :: nat where
  "maxUint64 = 2 ^ 64 - 1"

definition cutoff :: nat where
  "cutoff = maxUint64 div 10 + 1"

fun ParseUint_loop :: "nat \<Rightarrow> string \<Rightarrow> numerr + nat" where
  "ParseUint_loop n [] = Inr n"
| "ParseUint_loop n (c # cs) =
     (if \<not> is_digit c then Inl ErrSyntax
      else if cutoff \<le> n then Inl ErrRange
      else let n1 = n * 10 + (of_char c - 48)
           in if maxUint64 < n1 then Inl ErrRange else ParseUint_loop n1 cs)"

definition ParseUint :: "string \<Rightarrow> numerr + nat" where
  "ParseUint s = (if s = [] then Inl ErrSyntax else ParseUint_loop 0 s)"

text \<open>
  \<^verbatim>\<open>ParseInt\<close>: an optional leading sign, then \<^verbatim>\<open>ParseUint\<close>; a range error of
  \<^verbatim>\<open>ParseUint\<close> carries the maximal value on to the signed range check, which fails too.
\<close>

definition ParseInt :: "string \<Rightarrow> numerr + int" where
  "ParseInt s0 =
     (if s0 = [] then Inl ErrSyntax
      else let neg = (hd s0 = CHR ''-'');
               s = (if hd s0 = CHR ''+'' \<or> hd s0 = CHR ''-'' then tl s0 else s0)
           in case ParseUint s of
                Inl ErrSyntax \<Rightarrow> Inl ErrSyntax
              | Inl ErrRange \<Rightarrow> Inl ErrRange
              | Inr un \<Rightarrow>
                  if \<not> neg \<and> 2 ^ 63 \<le> un then Inl ErrRange
                  else if neg \<and> 2 ^ 63 < un then Inl ErrRange
                  else Inr (if neg then - int un else int un))"

definition Atoi :: "string \<Rightarrow> error + go_int" where
  "Atoi s = (case ParseInt s of
               Inl k \<Rightarrow> Inl (NumError ''Atoi'' s k)
             | Inr i \<Rightarrow> Inr (word_of_int i))"

subsection \<open>strings.SplitN with a one-byte separator\<close>

text \<open>
  \<open>Cut sep s\<close> is \<^verbatim>\<open>strings.Index(s, sep)\<close> together with the two slices
  \<^verbatim>\<open>s[:m]\<close> and \<^verbatim>\<open>s[m+1:]\<close> taken at the first occurrence; \<open>None\<close> is \<^verbatim>\<open>m < 0\<close>.
  \<open>genSplit_loop k\<close> is the loop of \<^verbatim>\<open>genSplit\<close> with \<open>k\<close> cuts left, and
  \<open>SplitN\<close> the call with a positive count or zero (a negative count is not used).
\<close>

fun Cut :: "char \<Rightarrow> string \<Rightarrow> (string \<times> string) option" where
  "Cut sep [] = None"
| "Cut sep (c # cs) =
     (if c = sep then Some ([], cs)
      else case Cut sep cs of None \<Rightarrow> None | Some (a, b) \<Rightarrow> Some (c # a, b))"

fun genSplit_loop :: "nat \<Rightarrow> char \<Rightarrow> string \<Rightarrow> string list" where
  "genSplit_loop 0 sep s = [s]"
| "genSplit_loop (Suc k) sep s =
     (case Cut sep s of None \<Rightarrow> [s] | Some (a, rest) \<Rightarrow> a # genSplit_loop k sep rest)"

definition SplitN :: "string \<Rightarrow> char \<Rightarrow> nat \<Rightarrow> string list" where
  "SplitN s sep n = (if n = 0 then [] else genSplit_loop (min n (length s + 1) - 1) sep s)"

section \<open>Package domain: secured data\<close>

text \<open>
  The composition of \<^verbatim>\<open>SignTransaction\<close>:
  \<^verbatim>\<open>fmt.Sprintf("%d_%s_%s", d.SignatureCounter, data, d.LastSignature)\<close>.
\<close>

definition securedData :: "go_int \<Rightarrow> string \<Rightarrow> string \<Rightarrow> string" where
  "securedData counter data lastSignature =
     Itoa (sint counter) @ ''_'' @ data @ ''_'' @ lastSignature"

definition ParseSecuredData :: "string \<Rightarrow> error + (go_int \<times> string \<times> string)" where
  "ParseSecuredData sd =
     (let parts = SplitN sd (CHR ''_'') 3
      in if length parts \<noteq> 3 then Inl (New ''invalid secured data format'')
         else case Atoi (parts ! 0) of
                Inl err \<Rightarrow> Inl (Wrap ''invalid signature counter'' err)
              | Inr counter \<Rightarrow> Inr (counter, parts ! 1, parts ! 2))"

subsection \<open>encoding/base64: the standard encoding with padding\<close>

definition encodeStd :: string where
  "encodeStd = ''ABCDEFGHIJKLMNOPQRSTUVWXYZabcdefghijklmnopqrstuvwxyz0123456789+/''"

definition b64 :: "nat \<Rightarrow> char" where
  "b64 n = encodeStd ! n"

fun EncodeToString :: "bytes \<Rightarrow> string" where
  "EncodeToString [] = []"
| "EncodeToString [a] =
     (let x = of_char a
      in [b64 (x div 4), b64 (x mod 4 * 16), CHR ''='', CHR ''=''])"
| "EncodeToString [a, b] =
     (let x = of_char a; y = of_char b
      in [b64 (x div 4), b64 (x mod 4 * 16 + y div 16), b64 (y mod 16 * 4), CHR ''=''])"
| "EncodeToString (a # b # c # rest) =
     (let x = of_char a; y = of_char b; z = of_char c
      in [b64 (x div 4), b64 (x mod 4 * 16 + y div 16), b64 (y mod 16 * 4 + z div 64),
          b64 (z mod 64)]) @ EncodeToString rest"

section \<open>External libraries and the parts of package crypto outside the sources\<close>

text \<open>
  The cryptographic primitives, the PEM and X.509 codecs, the UUID library and the
  Unicode-aware \<^verbatim>\<open>strings.ToUpper\<close> are parameters: every theorem holds for all of them.
  The type \<open>'k\<close> stands for key objects and \<open>'w\<close> for the state of the system's random
  source, which key generation, signing and \<^verbatim>\<open>uuid.New\<close> read and advance.
  The RSA generator, marshaler and signer and the ECC generator belong to package
  crypto but their files are not among the sources; they are parameters as well
  (\<open>RSAGenerate\<close>, \<open>RSAMarshal\<close>, \<open>RSAUnmarshal\<close>, \<open>RSASign\<close>, \<open>ECCGenerate\<close>).
\<close>

record 'k KeyPair =
  Public :: 'k
  Private :: 'k

record ('k, 'w) lib =
  uuid_Parse :: "string \<Rightarrow> bool"
  uuid_New :: "'w \<Rightarrow> string \<times> 'w"
  ToUpper :: "string \<Rightarrow> string"
  RSAGenerate :: "'w \<Rightarrow> (error + 'k KeyPair) \<times> 'w"
  RSAMarshal :: "'k KeyPair \<Rightarrow> error + (bytes \<times> bytes)"
  RSAUnmarshal :: "bytes \<Rightarrow> error + 'k KeyPair"
  RSASign :: "'k option \<Rightarrow> bytes \<Rightarrow> 'w \<Rightarrow> (error + bytes) \<times> 'w"
  ECCGenerate :: "'w \<Rightarrow> (error + 'k KeyPair) \<times> 'w"
  MarshalECPrivateKey :: "'k \<Rightarrow> error + bytes"
  MarshalPKIXPublicKey :: "'k \<Rightarrow> error + bytes"
  EncodeToMemory :: "string \<Rightarrow> bytes \<Rightarrow> bytes"
  pem_Decode :: "bytes \<Rightarrow> bytes option"
  ParseECPrivateKey :: "bytes \<Rightarrow> error + 'k"
  PublicKey_of :: "'k \<Rightarrow> 'k"
  Sum256 :: "bytes \<Rightarrow> bytes"
  ecdsa_Sign :: "'w \<Rightarrow> 'k \<Rightarrow> bytes \<Rightarrow> (error + (int \<times> int)) \<times> 'w"
  asn1_Marshal :: "int \<times> int \<Rightarrow> error + bytes"

section \<open>Package crypto: the ECC marshaler and signer\<close>

definition ECCMarshal :: "('k, 'w) lib \<Rightarrow> 'k KeyPair \<Rightarrow> error + (bytes \<times> bytes)" where
  "ECCMarshal L keyPair =
     (case MarshalECPrivateKey L (Private keyPair) of
        Inl err \<Rightarrow> Inl err
      | Inr privateKeyBytes \<Rightarrow>
          (case MarshalPKIXPublicKey L (Public keyPair) of
             Inl err \<Rightarrow> Inl err
           | Inr publicKeyBytes \<Rightarrow>
               Inr (EncodeToMemory L ''PUBLIC_KEY'' publicKeyBytes,
                    EncodeToMemory L ''PRIVATE_KEY'' privateKeyBytes)))"

definition ECCUnmarshal :: "('k, 'w) lib \<Rightarrow> bytes \<Rightarrow> error + 'k KeyPair" where
  "ECCUnmarshal L privateKeyBytes =
     (case pem_Decode L privateKeyBytes of
        None \<Rightarrow> Inl (New ''failed to decode PEM block containing private key'')
      | Some block \<Rightarrow>
          (case ParseECPrivateKey L block of
             Inl err \<Rightarrow> Inl (Wrap ''failed to parse private key'' err)
           | Inr privateKey \<Rightarrow>
               Inr \<lparr>Public = PublicKey_of L privateKey, Private = privateKey\<rparr>))"

text \<open>
  The two implementations of the interface \<^verbatim>\<open>crypto.Signer\<close>. The field is a pointer,
  \<open>None\<close> when nil.
\<close>

datatype 'k Signer = RSASigner "'k option" | ECCSigner "'k option"

definition ECCSign :: "('k, 'w) lib \<Rightarrow> 'k option \<Rightarrow> bytes \<Rightarrow> 'w \<Rightarrow> (error + bytes) \<times> 'w" where
  "ECCSign L PrivateKey dataToBeSigned w =
     (case PrivateKey of
        None \<Rightarrow> (Inl (New ''private key is nil''), w)
      | Some key \<Rightarrow>
          (let hash = Sum256 L dataToBeSigned
           in case ecdsa_Sign L w key hash of
                (Inl err, w') \<Rightarrow> (Inl (Wrap ''failed to sign data'' err), w')
              | (Inr rs, w') \<Rightarrow>
                  (case asn1_Marshal L rs of
                     Inl err \<Rightarrow> (Inl (Wrap ''failed to marshal signature'' err), w')
                   | Inr signature \<Rightarrow> (Inr signature, w'))))"

fun Sign :: "('k, 'w) lib \<Rightarrow> 'k Signer \<Rightarrow> bytes \<Rightarrow> 'w \<Rightarrow> (error + bytes) \<times> 'w" where
  "Sign L (RSASigner k) m w = RSASign L k m w"
| "Sign L (ECCSigner k) m w = ECCSign L k m w"

section \<open>Package domain: the signature device\<close>

text \<open>
  Devices are handled through pointers and their keys are byte slices, so the memory
  is explicit: a heap holds the allocated device structs and the allocated byte
  arrays, an address is an index, and allocation appends. A pointer or a slice is
  \<open>None\<close> when nil. A slice is represented by the address of the array it spans (the
  program never re-slices). The type parameter of the record is the representation
  of the two key fields: an address in memory, the bytes themselves in the deep
  value \<open>view\<close> that an observer reads through a pointer. The mutex field carries no
  data.
\<close>

type_synonym SignatureAlgorithm = string

definition RSA :: SignatureAlgorithm where
  "RSA = ''RSA''"

definition ECC :: SignatureAlgorithm where
  "ECC = ''ECC''"

record 's SignatureDevice =
  ID :: string
  Label :: string
  Algorithm :: SignatureAlgorithm
  SignatureCounter :: go_int
  LastSignature :: string
  PublicKey :: "'s option"
  PrivateKey :: "'s option"

type_synonym ptr = "nat option"

record heap =
  devices_mem :: "nat SignatureDevice list"
  arrays_mem :: "bytes list"

definition new_bytes :: "heap \<Rightarrow> bytes \<Rightarrow> heap \<times> nat" where
  "new_bytes h bs = (h\<lparr>arrays_mem := arrays_mem h @ [bs]\<rparr>, length (arrays_mem h))"

definition new_device :: "heap \<Rightarrow> nat SignatureDevice \<Rightarrow> heap \<times> nat" where
  "new_device h d = (h\<lparr>devices_mem := devices_mem h @ [d]\<rparr>, length (devices_mem h))"

definition bytes_of :: "heap \<Rightarrow> nat option \<Rightarrow> bytes option" where
  "bytes_of h s = map_option (\<lambda>a. arrays_mem h ! a) s"

definition view :: "heap \<Rightarrow> nat \<Rightarrow> bytes SignatureDevice" where
  "view h p =
     (let d = devices_mem h ! p
      in \<lparr>ID = ID d, Label = Label d, Algorithm = Algorithm d,
          SignatureCounter = SignatureCounter d, LastSignature = LastSignature d,
          PublicKey = bytes_of h (PublicKey d), PrivateKey = bytes_of h (PrivateKey d)\<rparr>)"

definition NewSignatureDevice ::
  "('k, 'w) lib \<Rightarrow> string \<Rightarrow> SignatureAlgorithm \<Rightarrow> string \<Rightarrow> heap \<Rightarrow> 'w
     \<Rightarrow> (error + nat) \<times> heap \<times> 'w" where
  "NewSignatureDevice L ident algorithm label h w =
     (if ident = [] then (Inl (New ''device ID cannot be empty''), h, w)
      else if algorithm \<noteq> RSA \<and> algorithm \<noteq> ECC
        then (Inl (New (''unsupported algorithm: '' @ algorithm)), h, w)
      else
        let (keys, w') =
              (if algorithm = RSA then
                 (case RSAGenerate L w of
                    (Inl err, w') \<Rightarrow> (Inl (Wrap ''failed to generate RSA key pair'' err), w')
                  | (Inr keyPair, w') \<Rightarrow>
                      (case RSAMarshal L keyPair of
                         Inl err \<Rightarrow> (Inl (Wrap ''failed to marshal RSA key pair'' err), w')
                       | Inr pp \<Rightarrow> (Inr pp, w')))
               else \<comment> \<open>\<^verbatim>\<open>case ECC\<close>: the only other value that passed the check above\<close>
                 (case ECCGenerate L w of
                    (Inl err, w') \<Rightarrow> (Inl (Wrap ''failed to generate ECC key pair'' err), w')
                  | (Inr keyPair, w') \<Rightarrow>
                      (case ECCMarshal L keyPair of
                         Inl err \<Rightarrow> (Inl (Wrap ''failed to encode ECC key pair'' err), w')
                       | Inr pp \<Rightarrow> (Inr pp, w'))))
        in case keys of
             Inl err \<Rightarrow> (Inl err, h, w')
           | Inr (publicKey, privateKey) \<Rightarrow>
               (let (h1, pub) = new_bytes h publicKey;
                    (h2, priv) = new_bytes h1 privateKey;
                    lastSignature = EncodeToString ident;
                    (h3, p) = new_device h2
                      \<lparr>ID = ident, Label = label, Algorithm = algorithm, SignatureCounter = 0,
                       LastSignature = lastSignature,
                       PublicKey = Some pub, PrivateKey = Some priv\<rparr>
                in (Inr p, h3, w')))"

definition GetSigner :: "('k, 'w) lib \<Rightarrow> heap \<Rightarrow> nat \<Rightarrow> error + 'k Signer" where
  "GetSigner L h d =
     (let dev = devices_mem h ! d;
          key = (case bytes_of h (PrivateKey dev) of None \<Rightarrow> [] | Some bs \<Rightarrow> bs)
      in if Algorithm dev = RSA then
           (case RSAUnmarshal L key of
              Inl err \<Rightarrow> Inl (Wrap ''failed to unmarshal RSA key pair'' err)
            | Inr keyPair \<Rightarrow> Inr (RSASigner (Some (Private keyPair))))
         else if Algorithm dev = ECC then
           (case ECCUnmarshal L key of
              Inl err \<Rightarrow> Inl (Wrap ''failed to unmarshal ECC key pair'' err)
            | Inr keyPair \<Rightarrow> Inr (ECCSigner (Some (Private keyPair))))
         else Inl (New (''unsupported algorithm: '' @ Algorithm dev)))"

text \<open>
  \<open>SignTransaction\<close> on the device at address \<open>d\<close>. The result is the error, or the
  pair of the encoded signature and the secured data; the heap returned holds the
  device after the call.
\<close>

definition SignTransaction ::
  "('k, 'w) lib \<Rightarrow> nat \<Rightarrow> string \<Rightarrow> heap \<Rightarrow> 'w \<Rightarrow> (error + (string \<times> string)) \<times> heap \<times> 'w" where
  "SignTransaction L d data h w =
     (let dev = devices_mem h ! d;
          sd = securedData (SignatureCounter dev) data (LastSignature dev)
      in case GetSigner L h d of
           Inl err \<Rightarrow> (Inl (Wrap ''failed to get signer'' err), h, w)
         | Inr signer \<Rightarrow>
             (case Sign L signer sd w of
                (Inl err, w') \<Rightarrow> (Inl (Wrap ''failed to sign data'' err), h, w')
              | (Inr signature, w') \<Rightarrow>
                  (let encodedSignature = EncodeToString signature;
                       dev' = dev\<lparr>LastSignature := encodedSignature,
                                  SignatureCounter := SignatureCounter dev + 1\<rparr>
                   in (Inr (encodedSignature, sd),
                       h\<lparr>devices_mem := (devices_mem h)[d := dev']\<rparr>, w'))))"

text \<open>
  A run of \<open>SignTransaction\<close> calls on one device, one per entry of the list; it stops
  at the first error. The result lists the pairs returned by the successful calls.
\<close>

fun sign_all ::
  "('k, 'w) lib \<Rightarrow> nat \<Rightarrow> string list \<Rightarrow> heap \<Rightarrow> 'w \<Rightarrow> (error + (string \<times> string) list) \<times> heap \<times> 'w" where
  "sign_all L d [] h w = (Inr [], h, w)"
| "sign_all L d (x # xs) h w =
     (case SignTransaction L d x h w of
        (Inl err, h', w') \<Rightarrow> (Inl err, h', w')
      | (Inr out, h', w') \<Rightarrow>
          (case sign_all L d xs h' w' of
             (Inl err, h'', w'') \<Rightarrow> (Inl err, h'', w'')
           | (Inr outs, h'', w'') \<Rightarrow> (Inr (out # outs), h'', w'')))"

definition ValidateID :: "('k, 'w) lib \<Rightarrow> string \<Rightarrow> error option" where
  "ValidateID L ident = (if uuid_Parse L ident then None else Some (New ''invalid UUID format''))"

definition copy_slice :: "heap \<Rightarrow> nat option \<Rightarrow> heap \<times> nat option" where
  "copy_slice h s =
     (case s of
        None \<Rightarrow> (h, None)
      | Some a \<Rightarrow> (let (h', a') = new_bytes h (arrays_mem h ! a) in (h', Some a')))"

definition Clone :: "heap \<Rightarrow> ptr \<Rightarrow> heap \<times> ptr" where
  "Clone h d =
     (case d of
        None \<Rightarrow> (h, None)
      | Some p \<Rightarrow>
          (let src = devices_mem h ! p;
               (h1, c) = new_device h
                 \<lparr>ID = ID src, Label = Label src, Algorithm = Algorithm src,
                  SignatureCounter = SignatureCounter src, LastSignature = LastSignature src,
                  PublicKey = None, PrivateKey = None\<rparr>;
               (h2, pub) = copy_slice h1 (PublicKey (devices_mem h1 ! p));
               h3 = h2\<lparr>devices_mem := (devices_mem h2)[c := (devices_mem h2 ! c)\<lparr>PublicKey := pub\<rparr>]\<rparr>;
               (h4, priv) = copy_slice h3 (PrivateKey (devices_mem h3 ! p));
               h5 = h4\<lparr>devices_mem := (devices_mem h4)[c := (devices_mem h4 ! c)\<lparr>PrivateKey := priv\<rparr>]\<rparr>
           in (h5, Some c)))"


section \<open>Package persistence: the in-memory repository\<close>

text \<open>
  The field \<^verbatim>\<open>devices\<close> of the repository, a Go map from id to device pointer, is an
  association list with at most one entry per key. Go leaves the iteration order of
  a map open; \<open>List\<close> follows the order of the association list, and no theorem
  depends on it. Every operation runs under the repository's lock, so it is one
  atomic step on the pair of map and heap. An \<open>error option\<close> is Go's \<^verbatim>\<open>error\<close>
  result, \<open>None\<close> for nil.
\<close>

type_synonym repo = "(string \<times> ptr) list"

definition NewInMemoryDeviceRepository :: repo where
  "NewInMemoryDeviceRepository = []"

definition Create :: "repo \<Rightarrow> heap \<Rightarrow> ptr \<Rightarrow> error option \<times> repo \<times> heap" where
  "Create r h device =
     (case device of
        None \<Rightarrow> (Some (New ''device cannot be nil''), r, h)
      | Some p \<Rightarrow>
          if ID (devices_mem h ! p) = [] then (Some (New ''device ID cannot be empty''), r, h)
          else if map_of r (ID (devices_mem h ! p)) \<noteq> None
            then (Some (New ''device with this ID already exists''), r, h)
          else let (h', c) = Clone h device
               in (None, AList.update (ID (devices_mem h ! p)) c r, h'))"

definition Get :: "repo \<Rightarrow> heap \<Rightarrow> string \<Rightarrow> (error + ptr) \<times> heap" where
  "Get r h ident =
     (case map_of r ident of
        None \<Rightarrow> (Inl (New ''device not found''), h)
      | Some device \<Rightarrow> (let (h', c) = Clone h device in (Inr c, h')))"

fun List_loop :: "(string \<times> ptr) list \<Rightarrow> heap \<Rightarrow> ptr list \<Rightarrow> ptr list \<times> heap" where
  "List_loop [] h devices = (devices, h)"
| "List_loop ((k, device) # rest) h devices =
     (let (h', c) = Clone h device in List_loop rest h' (devices @ [c]))"

definition List :: "repo \<Rightarrow> heap \<Rightarrow> (error + ptr list) \<times> heap" where
  "List r h = (let (devices, h') = List_loop r h [] in (Inr devices, h'))"

definition Update :: "repo \<Rightarrow> heap \<Rightarrow> ptr \<Rightarrow> error option \<times> repo \<times> heap" where
  "Update r h device =
     (case device of
        None \<Rightarrow> (Some (New ''device cannot be nil''), r, h)
      | Some p \<Rightarrow>
          if ID (devices_mem h ! p) = [] then (Some (New ''device ID cannot be empty''), r, h)
          else if map_of r (ID (devices_mem h ! p)) = None
            then (Some (New ''device not found''), r, h)
          else let (h', c) = Clone h device
               in (None, AList.update (ID (devices_mem h ! p)) c r, h'))"

definition Delete :: "repo \<Rightarrow> string \<Rightarrow> error option \<times> repo" where
  "Delete r ident =
     (if map_of r ident = None then (Some (New ''device not found''), r)
      else (None, AList.delete ident r))"

section \<open>Package api: the device handlers\<close>

text \<open>
  A handler receives the request method, the URL path and the outcome of decoding
  the JSON body (\<open>None\<close> when decoding fails), and answers with a status code and a
  payload: the arguments it passes to \<^verbatim>\<open>WriteErrorResponse\<close> or \<^verbatim>\<open>WriteAPIResponse\<close>,
  whose file is not among the sources. \<open>Sprintf_v p e\<close> is \<^verbatim>\<open>fmt.Sprintf(p + "%v", e)\<close>
  and \<open>ErrorOf e\<close> is \<^verbatim>\<open>e.Error()\<close>. The fields of the request and response structs
  carry a prefix, since the device has fields of the same names.
\<close>

record CreateDeviceRequest =
  req_ID :: string
  req_Algorithm :: string
  req_Label :: string

record CreateDeviceResponse =
  resp_ID :: string
  resp_Label :: string
  resp_Algorithm :: string
  resp_SignatureCounter :: go_int
  resp_PublicKey :: "bytes option"

record SignTransactionRequest =
  req_Data :: string

record SignTransactionResponse =
  resp_Signature :: string
  resp_SignedData :: string

datatype errtext = Text string | ErrorOf error | Sprintf_v string error

datatype payload =
    Errors "errtext list"
  | Device CreateDeviceResponse
  | Devices "CreateDeviceResponse list"
  | Signed SignTransactionResponse

type_synonym response = "nat \<times> payload"

text \<open>\<^verbatim>\<open>strings.Split(s, sep)\<close>: \<^verbatim>\<open>genSplit\<close> with one more part than separators.\<close>

definition Split :: "string \<Rightarrow> char \<Rightarrow> string list" where
  "Split s sep = genSplit_loop (count_list s sep) sep s"

text \<open>
  The struct literal that \<^verbatim>\<open>CreateDevice\<close>, \<^verbatim>\<open>GetDevice\<close> and \<^verbatim>\<open>ListDevices\<close> build from a
  device pointer. Reading through a nil pointer panics in Go and is left
  unspecified here.
\<close>

definition deviceResponse :: "heap \<Rightarrow> ptr \<Rightarrow> CreateDeviceResponse" where
  "deviceResponse h device =
     (let d = devices_mem h ! the device
      in \<lparr>resp_ID = ID d, resp_Label = Label d, resp_Algorithm = Algorithm d,
          resp_SignatureCounter = SignatureCounter d,
          resp_PublicKey = bytes_of h (PublicKey d)\<rparr>)"

definition Handler_CreateDevice ::
  "('k, 'w) lib \<Rightarrow> string \<Rightarrow> CreateDeviceRequest option \<Rightarrow> repo \<Rightarrow> heap \<Rightarrow> 'w
     \<Rightarrow> response \<times> repo \<times> heap \<times> 'w" where
  "Handler_CreateDevice L method body r h w =
     (if method \<noteq> ''POST'' then ((405, Errors [Text ''Method Not Allowed'']), r, h, w)
      else case body of
        None \<Rightarrow> ((400, Errors [Text ''Invalid request body'']), r, h, w)
      | Some request \<Rightarrow>
          (case (if req_ID request = []
                 then (case uuid_New L w of (u, w1) \<Rightarrow> (Inr u, w1))
                 else (case ValidateID L (req_ID request) of
                         Some err \<Rightarrow> (Inl err, w)
                       | None \<Rightarrow> (Inr (req_ID request), w))) of
             (Inl err, w1) \<Rightarrow> ((400, Errors [ErrorOf err]), r, h, w1)
           | (Inr ident, w1) \<Rightarrow>
               (let algorithm = ToUpper L (req_Algorithm request)
                in if algorithm \<noteq> RSA \<and> algorithm \<noteq> ECC
                   then ((400, Errors [Text ''Invalid algorithm. Supported algorithms: RSA, ECC'']),
                         r, h, w1)
                   else case NewSignatureDevice L ident algorithm (req_Label request) h w1 of
                     (Inl err, h1, w2) \<Rightarrow>
                       ((500, Errors [Sprintf_v ''Failed to create signature device: '' err]),
                        r, h1, w2)
                   | (Inr device, h1, w2) \<Rightarrow>
                       (case Create r h1 (Some device) of
                          (Some err, r1, h2) \<Rightarrow>
                            ((500, Errors [Sprintf_v ''Failed to store signature device: '' err]),
                             r1, h2, w2)
                        | (None, r1, h2) \<Rightarrow>
                            ((201, Device (deviceResponse h2 (Some device))), r1, h2, w2)))))"

definition Handler_GetDevice :: "string \<Rightarrow> string \<Rightarrow> repo \<Rightarrow> heap \<Rightarrow> response \<times> heap" where
  "Handler_GetDevice method path r h =
     (if method \<noteq> ''GET'' then ((405, Errors [Text ''Method Not Allowed'']), h)
      else let parts = Split path (CHR ''/'')
           in if length parts < 4 then ((400, Errors [Text ''Invalid URL path'']), h)
              else case Get r h (parts ! (length parts - 1)) of
                     (Inl err, h1) \<Rightarrow> ((404, Errors [Text ''Device not found'']), h1)
                   | (Inr device, h1) \<Rightarrow> ((200, Device (deviceResponse h1 device)), h1))"

definition Handler_ListDevices :: "string \<Rightarrow> repo \<Rightarrow> heap \<Rightarrow> response \<times> heap" where
  "Handler_ListDevices method r h =
     (if method \<noteq> ''GET'' then ((405, Errors [Text ''Method Not Allowed'']), h)
      else case List r h of
             (Inl err, h1) \<Rightarrow>
               ((500, Errors [Sprintf_v ''Failed to retrieve devices: '' err]), h1)
           | (Inr devices, h1) \<Rightarrow> ((200, Devices (map (deviceResponse h1) devices)), h1))"

text \<open>
  \<^verbatim>\<open>DeviceHandler.SignTransaction\<close> in its three sections: up to and including the
  fetch from the repository (which holds the repository's lock only inside
  \<open>Get\<close>), the decoding and the signing on the fetched copy, and the write-back
  (which holds the lock only inside \<open>Update\<close>). The handler is their composition.
\<close>

definition sign_fetch :: "string \<Rightarrow> string \<Rightarrow> repo \<Rightarrow> heap \<Rightarrow> (response + ptr) \<times> heap" where
  "sign_fetch method path r h =
     (if method \<noteq> ''POST'' then (Inl (405, Errors [Text ''Method Not Allowed'']), h)
      else let filteredParts = filter (\<lambda>part. part \<noteq> []) (Split path (CHR ''/''))
           in if length filteredParts < 5 \<or> filteredParts ! (length filteredParts - 1) \<noteq> ''sign''
              then (Inl (400, Errors [Text ''Invalid URL path'']), h)
              else case Get r h (filteredParts ! (length filteredParts - 2)) of
                     (Inl err, h1) \<Rightarrow> (Inl (404, Errors [Text ''Device not found'']), h1)
                   | (Inr device, h1) \<Rightarrow> (Inr device, h1))"

definition sign_compute ::
  "('k, 'w) lib \<Rightarrow> ptr \<Rightarrow> SignTransactionRequest option \<Rightarrow> heap \<Rightarrow> 'w
     \<Rightarrow> (response + (string \<times> string)) \<times> heap \<times> 'w" where
  "sign_compute L device body h w =
     (case body of
        None \<Rightarrow> (Inl (400, Errors [Text ''Invalid request body'']), h, w)
      | Some request \<Rightarrow>
          (case SignTransaction L (the device) (req_Data request) h w of
             (Inl err, h1, w1) \<Rightarrow>
               (Inl (500, Errors [Sprintf_v ''Failed to sign transaction: '' err]), h1, w1)
           | (Inr out, h1, w1) \<Rightarrow> (Inr out, h1, w1)))"

definition sign_store :: "ptr \<Rightarrow> string \<times> string \<Rightarrow> repo \<Rightarrow> heap \<Rightarrow> response \<times> repo \<times> heap" where
  "sign_store device out r h =
     (case Update r h device of
        (Some err, r1, h1) \<Rightarrow>
          ((500, Errors [Sprintf_v ''Failed to update device: '' err]), r1, h1)
      | (None, r1, h1) \<Rightarrow>
          ((200, Signed \<lparr>resp_Signature = fst out, resp_SignedData = snd out\<rparr>), r1, h1))"

definition Handler_SignTransaction ::
  "('k, 'w) lib \<Rightarrow> string \<Rightarrow> string \<Rightarrow> SignTransactionRequest option \<Rightarrow> repo \<Rightarrow> heap \<Rightarrow> 'w
     \<Rightarrow> response \<times> repo \<times> heap \<times> 'w" where
  "Handler_SignTransaction L method path body r h w =
     (case sign_fetch method path r h of
        (Inl resp, h1) \<Rightarrow> (resp, r, h1, w)
      | (Inr device, h1) \<Rightarrow>
          (case sign_compute L device body h1 w of
             (Inl resp, h2, w1) \<Rightarrow> (resp, r, h2, w1)
           | (Inr out, h2, w1) \<Rightarrow>
               (case sign_store device out r h2 of (resp, r1, h3) \<Rightarrow> (resp, r1, h3, w1))))"

text \<open>
  Two requests to sign on the same path whose handlers overlap: both fetch before
  either writes back. Each section is atomic, so this order of the six sections is
  one of the schedules of two concurrent handler runs.
\<close>

definition overlapping_signs ::
  "('k, 'w) lib \<Rightarrow> string \<Rightarrow> SignTransactionRequest option \<Rightarrow> SignTransactionRequest option
     \<Rightarrow> repo \<Rightarrow> heap \<Rightarrow> 'w \<Rightarrow> (response \<times> response) option \<times> repo \<times> heap \<times> 'w" where
  "overlapping_signs L path body1 body2 r h w =
     (case sign_fetch ''POST'' path r h of
        (Inl resp, h1) \<Rightarrow> (None, r, h1, w)
      | (Inr device1, h1) \<Rightarrow>
     (case sign_fetch ''POST'' path r h1 of
        (Inl resp, h2) \<Rightarrow> (None, r, h2, w)
      | (Inr device2, h2) \<Rightarrow>
     (case sign_compute L device1 body1 h2 w of
        (Inl resp, h3, w1) \<Rightarrow> (None, r, h3, w1)
      | (Inr out1, h3, w1) \<Rightarrow>
     (case sign_compute L device2 body2 h3 w1 of
        (Inl resp, h4, w2) \<Rightarrow> (None, r, h4, w2)
      | (Inr out2, h4, w2) \<Rightarrow>
     (case sign_store device1 out1 r h4 of
        (resp1, r1, h5) \<Rightarrow>
     (case sign_store device2 out2 r1 h5 of
        (resp2, r2, h6) \<Rightarrow> (Some (resp1, resp2), r2, h6, w2)))))))"

section \<open>What a caller can do with a device pointer\<close>

text \<open>
  The statements by which code outside the repository changes a device it holds a
  pointer to: assigning a field, assigning a key field a slice of its own making
  (nil, or a new array with the given content), and storing a byte through a key
  slice. A store through a nil slice or beyond its length panics and changes nothing.
\<close>

datatype mutation =
    SetID string
  | SetLabel string
  | SetAlgorithm string
  | SetSignatureCounter go_int
  | SetLastSignature string
  | SetPublicKey "bytes option"
  | SetPrivateKey "bytes option"
  | PokePublicKey nat char
  | PokePrivateKey nat char

definition set_field ::
  "heap \<Rightarrow> nat \<Rightarrow> (nat SignatureDevice \<Rightarrow> nat SignatureDevice) \<Rightarrow> heap" where
  "set_field h p f = h\<lparr>devices_mem := (devices_mem h)[p := f (devices_mem h ! p)]\<rparr>"

definition make_slice :: "heap \<Rightarrow> bytes option \<Rightarrow> heap \<times> nat option" where
  "make_slice h bs =
     (case bs of None \<Rightarrow> (h, None)
      | Some b \<Rightarrow> (let (h', a) = new_bytes h b in (h', Some a)))"

definition poke :: "heap \<Rightarrow> nat option \<Rightarrow> nat \<Rightarrow> char \<Rightarrow> heap" where
  "poke h s i b =
     (case s of None \<Rightarrow> h
      | Some a \<Rightarrow> h\<lparr>arrays_mem := (arrays_mem h)[a := (arrays_mem h ! a)[i := b]]\<rparr>)"

fun mutate :: "nat \<Rightarrow> heap \<Rightarrow> mutation \<Rightarrow> heap" where
  "mutate p h (SetID v) = set_field h p (\<lambda>d. d\<lparr>ID := v\<rparr>)"
| "mutate p h (SetLabel v) = set_field h p (\<lambda>d. d\<lparr>Label := v\<rparr>)"
| "mutate p h (SetAlgorithm v) = set_field h p (\<lambda>d. d\<lparr>Algorithm := v\<rparr>)"
| "mutate p h (SetSignatureCounter v) = set_field h p (\<lambda>d. d\<lparr>SignatureCounter := v\<rparr>)"
| "mutate p h (SetLastSignature v) = set_field h p (\<lambda>d. d\<lparr>LastSignature := v\<rparr>)"
| "mutate p h (SetPublicKey bs) =
     (let (h', s) = make_slice h bs in set_field h' p (\<lambda>d. d\<lparr>PublicKey := s\<rparr>))"
| "mutate p h (SetPrivateKey bs) =
     (let (h', s) = make_slice h bs in set_field h' p (\<lambda>d. d\<lparr>PrivateKey := s\<rparr>))"
| "mutate p h (PokePublicKey i b) = poke h (PublicKey (devices_mem h ! p)) i b"
| "mutate p h (PokePrivateKey i b) = poke h (PrivateKey (devices_mem h ! p)) i b"

text \<open>
  What a caller observes when it asks the repository for an id: the error, or the
  content of the device returned.
\<close>

definition observe :: "repo \<Rightarrow> heap \<Rightarrow> string \<Rightarrow> error + bytes SignatureDevice" where
  "observe r h ident =
     (case Get r h ident of
        (Inl err, h') \<Rightarrow> Inl err
      | (Inr device, h') \<Rightarrow> Inr (view h' (the device)))"

text \<open>
  The memory the repository refers to: its device structs and their key arrays.
  \<open>store_ok\<close> says that these exist, and \<open>separate\<close> that the device at an address is
  none of the repository's and shares no key array with them.
\<close>

definition repo_devs :: "repo \<Rightarrow> nat set" where
  "repo_devs r = {a. \<exists>k. (k, Some a) \<in> set r}"

definition keys_of :: "heap \<Rightarrow> nat \<Rightarrow> nat set" where
  "keys_of h a = set_option (PublicKey (devices_mem h ! a)) \<union> set_option (PrivateKey (devices_mem h ! a))"

definition repo_arrs :: "repo \<Rightarrow> heap \<Rightarrow> nat set" where
  "repo_arrs r h = (\<Union>a \<in> repo_devs r. keys_of h a)"

definition store_ok :: "repo \<Rightarrow> heap \<Rightarrow> bool" where
  "store_ok r h \<longleftrightarrow>
     (\<forall>k. (k, None) \<notin> set r) \<and>
     (\<forall>a \<in> repo_devs r. a < length (devices_mem h)) \<and>
     (\<forall>s \<in> repo_arrs r h. s < length (arrays_mem h))"

definition separate :: "repo \<Rightarrow> heap \<Rightarrow> nat \<Rightarrow> bool" where
  "separate r h p \<longleftrightarrow>
     p < length (devices_mem h) \<and> p \<notin> repo_devs r \<and>
     (\<forall>s \<in> keys_of h p. s < length (arrays_mem h) \<and> s \<notin> repo_arrs r h)"

text \<open>
  \<open>valid_dev\<close>: the address holds a device whose key slices point to allocated
  arrays, as every pointer of a Go program does. \<open>same_on r h h2\<close>: the memory \<open>h2\<close>
  still holds, unchanged, everything the repository \<open>r\<close> refers to in \<open>h\<close>.
\<close>

definition valid_dev :: "heap \<Rightarrow> nat \<Rightarrow> bool" where
  "valid_dev h p \<longleftrightarrow>
     p < length (devices_mem h) \<and> (\<forall>s \<in> keys_of h p. s < length (arrays_mem h))"

definition same_on :: "repo \<Rightarrow> heap \<Rightarrow> heap \<Rightarrow> bool" where
  "same_on r h h2 \<longleftrightarrow>
     (\<forall>a \<in> repo_devs r. a < length (devices_mem h2) \<and> devices_mem h2 ! a = devices_mem h ! a) \<and>
     (\<forall>s \<in> repo_arrs r h. s < length (arrays_mem h2) \<and> arrays_mem h2 ! s = arrays_mem h ! s)"


section \<open>Error kinds and a stand-in for the libraries\<close>

text \<open>
  The errors of the repository are plain messages without a kind discriminant.
  \<open>error_kind\<close> names the kind that the specification gives to each message.
\<close>

datatype kind = ValidationError | DuplicateError | NotFoundError

definition error_kind :: "error \<Rightarrow> kind option" where
  "error_kind e =
     (if e = New ''device cannot be nil'' \<or> e = New ''device ID cannot be empty''
        then Some ValidationError
      else if e = New ''device with this ID already exists'' then Some DuplicateError
      else if e = New ''device not found'' then Some NotFoundError
      else None)"

text \<open>
  \<open>demo_lib\<close> is one instance of the library parameters, simple enough to run the
  definitions on concrete inputs: keys are numbers, every private key is encoded as
  \<open>key\<close>, an RSA signature is the first two bytes of the message and an ECC
  signature is \<open>der\<close>. It stands for nothing in the sources.
\<close>

definition demo_lib :: "(nat, nat) lib" where
  "demo_lib =
     \<lparr>uuid_Parse = (\<lambda>s. length s = 36),
      uuid_New = (\<lambda>w. (''6ba7b810-9dad-11d1-80b4-00c04fd430c8'', Suc w)),
      ToUpper = (\<lambda>s. s),
      RSAGenerate = (\<lambda>w. (Inr \<lparr>Public = w, Private = w\<rparr>, Suc w)),
      RSAMarshal = (\<lambda>kp. Inr (''pub'', ''key'')),
      RSAUnmarshal = (\<lambda>bs. if bs = ''key'' then Inr \<lparr>Public = 0, Private = 0\<rparr>
                            else Inl (New ''no key'')),
      RSASign = (\<lambda>k m w. (Inr (take 2 m), w)),
      ECCGenerate = (\<lambda>w. (Inr \<lparr>Public = w, Private = w\<rparr>, Suc w)),
      MarshalECPrivateKey = (\<lambda>k. Inr ''key''),
      MarshalPKIXPublicKey = (\<lambda>k. Inr ''pub''),
      EncodeToMemory = (\<lambda>t b. b),
      pem_Decode = (\<lambda>b. if b = [] then None else Some b),
      ParseECPrivateKey = (\<lambda>b. Inr 0),
      PublicKey_of = (\<lambda>k. k),
      Sum256 = (\<lambda>m. m),
      ecdsa_Sign = (\<lambda>w k hsh. (Inr (1, 2), Suc w)),
      asn1_Marshal = (\<lambda>rs. Inr ''der'')\<rparr>"

definition empty_heap :: heap where
  "empty_heap = \<lparr>devices_mem = [], arrays_mem = []\<rparr>"

text \<open>
  \<open>demo_heap\<close> is the memory after \<^verbatim>\<open>NewSignatureDevice("d1", RSA, "L")\<close> with
  \<open>demo_lib\<close> on the empty heap, and \<open>keyless_heap\<close> the same with the private key
  of the device set to nil, so that no signer can be obtained.
\<close>

definition demo_heap :: heap where
  "demo_heap =
     \<lparr>devices_mem =
        [\<lparr>ID = ''d1'', Label = ''L'', Algorithm = ''RSA'', SignatureCounter = 0,
          LastSignature = ''ZDE='', PublicKey = Some 0, PrivateKey = Some 1\<rparr>],
      arrays_mem = [''pub'', ''key'']\<rparr>"

definition keyless_heap :: heap where
  "keyless_heap =
     \<lparr>devices_mem =
        [\<lparr>ID = ''d1'', Label = ''L'', Algorithm = ''RSA'', SignatureCounter = 0,
          LastSignature = ''ZDE='', PublicKey = Some 0, PrivateKey = None\<rparr>],
      arrays_mem = [''pub'']\<rparr>"

text \<open>\<open>cloned_heap\<close> is \<open>demo_heap\<close> after one \<open>Clone\<close> of its device.\<close>

definition cloned_heap :: heap where
  "cloned_heap =
     \<lparr>devices_mem =
        [\<lparr>ID = ''d1'', Label = ''L'', Algorithm = ''RSA'', SignatureCounter = 0,
          LastSignature = ''ZDE='', PublicKey = Some 0, PrivateKey = Some 1\<rparr>,
         \<lparr>ID = ''d1'', Label = ''L'', Algorithm = ''RSA'', SignatureCounter = 0,
          LastSignature = ''ZDE='', PublicKey = Some 2, PrivateKey = Some 3\<rparr>],
      arrays_mem = [''pub'', ''key'', ''pub'', ''key'']\<rparr>"

text \<open>
  \<open>chain c s xs outs\<close>: the results \<open>outs\<close> are those of signing the data \<open>xs\<close> one
  after the other from counter \<open>c\<close> and last signature \<open>s\<close>; each secured data
  carries the next counter and the signature returned just before.
\<close>

fun chain :: "go_int \<Rightarrow> string \<Rightarrow> string list \<Rightarrow> (string \<times> string) list \<Rightarrow> bool" where
  "chain c lsig [] [] = True"
| "chain c lsig (x # xs) (out # outs) =
     (snd out = securedData c x lsig \<and> chain (c + 1) (fst out) xs outs)"
| "chain c lsig _ _ = False"

text \<open>
  The predicates below describe inputs; they are not part of the program.
  \<open>dec_value\<close> is the number a digit string denotes, \<open>atoi_accepts\<close> says that a
  field is an optional sign followed by at least one decimal digit and denotes a value
  of the 64-bit signed range, and \<open>nonneg_decimal\<close> is the reading of
  ``a valid non-negative decimal integer'': one or more decimal digits.
\<close>

definition dec_value :: "string \<Rightarrow> nat" where
  "dec_value ds = foldl (\<lambda>a c. a * 10 + (of_char c - 48)) 0 ds"

definition atoi_accepts :: "string \<Rightarrow> bool" where
  "atoi_accepts f =
     (let neg = (f \<noteq> [] \<and> hd f = CHR ''-'');
          body = (if f \<noteq> [] \<and> (hd f = CHR ''+'' \<or> hd f = CHR ''-'') then tl f else f)
      in body \<noteq> [] \<and> list_all is_digit body \<and>
         (if neg then dec_value body \<le> 2 ^ 63 else dec_value body < 2 ^ 63))"

definition nonneg_decimal :: "string \<Rightarrow> bool" where
  "nonneg_decimal f = (f \<noteq> [] \<and> list_all is_digit f)"

section \<open>Round trip of the secured data\<close>

lemma of_char_digit_char: "d < 10 \<Longrightarrow> (of_char (digit_char d) :: nat) = 48 + d"
proof -
  assume "d < 10"
  then have "d \<in> {0, 1, 2, 3, 4, 5, 6, 7, 8, 9}" by auto
  then show ?thesis by (auto simp: digit_char_def)
qed

lemma is_digit_digit_char: "d < 10 \<Longrightarrow> is_digit (digit_char d)"
  by (simp add: is_digit_def of_char_digit_char)

lemma decimal_digits: "c \<in> set (decimal n) \<Longrightarrow> is_digit c"
proof (induction n rule: decimal.induct)
  case (1 n)
  then show ?case
    by (subst (asm) (2) decimal.simps) (auto simp: is_digit_digit_char split: if_splits)
qed

lemma decimal_not_Nil: "decimal n \<noteq> []"
  by (subst decimal.simps) simp

lemma ParseUint_loop_append:
  "ParseUint_loop n (xs @ ys) =
     (case ParseUint_loop n xs of Inl e \<Rightarrow> Inl e | Inr v \<Rightarrow> ParseUint_loop v ys)"
  by (induction xs arbitrary: n) (auto simp: Let_def)

lemma ParseUint_loop_decimal:
  "m \<le> maxUint64 \<Longrightarrow> ParseUint_loop 0 (decimal m) = Inr m"
proof (induction m rule: decimal.induct)
  case (1 m)
  show ?case
  proof (cases "m < 10")
    case True
    then show ?thesis
      by (subst decimal.simps)
         (simp add: is_digit_digit_char of_char_digit_char cutoff_def maxUint64_def)
  next
    case False
    have le: "m div 10 \<le> maxUint64" using "1.prems" by simp
    have lt: "m div 10 < cutoff" using "1.prems" by (simp add: cutoff_def)
    have ih: "ParseUint_loop 0 (decimal (m div 10)) = Inr (m div 10)"
      using "1.IH" [OF False le] .
    show ?thesis
      using False lt "1.prems"
      by (subst decimal.simps)
         (simp add: ParseUint_loop_append ih is_digit_digit_char of_char_digit_char)
  qed
qed

lemma is_digit_not_sign:
  "is_digit c \<Longrightarrow> c \<noteq> CHR ''+'' \<and> c \<noteq> CHR ''-'' \<and> c \<noteq> CHR ''_''"
  by (auto simp: is_digit_def)

lemma hd_decimal: "is_digit (hd (decimal n))"
  using decimal_digits [of "hd (decimal n)" n] decimal_not_Nil [of n] by simp

lemma ParseUint_decimal: "m \<le> maxUint64 \<Longrightarrow> ParseUint (decimal m) = Inr m"
  by (simp add: ParseUint_def decimal_not_Nil ParseUint_loop_decimal)

lemma ParseInt_Itoa:
  assumes "- (2 ^ 63) \<le> i" "i < 2 ^ 63"
  shows "ParseInt (Itoa i) = Inr i"
proof (cases "i < 0")
  case True
  have "nat (- i) \<le> maxUint64" using assms by (simp add: maxUint64_def)
  then have "ParseUint (decimal (nat (- i))) = Inr (nat (- i))" by (rule ParseUint_decimal)
  moreover have "\<not> (2 ^ 63 < nat (- i))" using assms by simp
  ultimately show ?thesis using True
    by (simp add: ParseInt_def Itoa_def)
next
  case False
  have "nat i \<le> maxUint64" using assms by (simp add: maxUint64_def)
  then have "ParseUint (decimal (nat i)) = Inr (nat i)" by (rule ParseUint_decimal)
  moreover have "\<not> (2 ^ 63 \<le> nat i)" using assms False by simp
  moreover have "hd (decimal (nat i)) \<noteq> CHR ''+''" "hd (decimal (nat i)) \<noteq> CHR ''-''"
    using hd_decimal [of "nat i"] is_digit_not_sign by blast+
  ultimately show ?thesis using False
    by (simp add: ParseInt_def Itoa_def decimal_not_Nil)
qed

lemma Atoi_Itoa: "Atoi (Itoa (sint (c :: go_int))) = Inr c"
proof -
  have "- (2 ^ 63) \<le> sint c" using sint_ge [of c] by simp
  moreover have "sint c < 2 ^ 63" using sint_lt [of c] by simp
  ultimately have "ParseInt (Itoa (sint c)) = Inr (sint c)" by (rule ParseInt_Itoa)
  then show ?thesis by (simp add: Atoi_def)
qed

lemma Cut_append: "sep \<notin> set a \<Longrightarrow> Cut sep (a @ sep # b) = Some (a, b)"
  by (induction a) auto

lemma Cut_None: "Cut sep s = None \<longleftrightarrow> sep \<notin> set s"
  by (induction s) (auto split: option.splits)

lemma Cut_Some:
  "Cut sep s = Some (a, b) \<Longrightarrow> s = a @ sep # b \<and> sep \<notin> set a"
  by (induction s arbitrary: a) (auto split: option.splits if_splits)

lemma SplitN_3:
  "SplitN s sep 3 =
     (case Cut sep s of None \<Rightarrow> [s]
      | Some (a, r) \<Rightarrow> (case Cut sep r of None \<Rightarrow> [a, r] | Some (b, c) \<Rightarrow> [a, b, c]))"
proof (cases "Cut sep s")
  case None
  then show ?thesis
    by (cases "min 3 (length s + 1) - 1") (simp_all add: SplitN_def)
next
  case (Some p)
  obtain a r where p: "p = (a, r)" by (cases p)
  from Some p have s: "s = a @ sep # r" "sep \<notin> set a" using Cut_Some by blast+
  show ?thesis
  proof (cases "Cut sep r")
    case None
    have "0 < min 3 (length s + 1) - 1" using s by simp
    then obtain k where k: "min 3 (length s + 1) - 1 = Suc k"
      by (cases "min 3 (length s + 1) - 1") auto
    show ?thesis using Some p None k
      by (cases k) (simp_all add: SplitN_def)
  next
    case (Some q)
    obtain b c where q: "q = (b, c)" by (cases q)
    from Some q have r: "r = b @ sep # c" using Cut_Some by blast
    have "min 3 (length s + 1) - 1 = Suc (Suc 0)" using s r by simp
    then show ?thesis using Some q \<open>Cut sep s = Some p\<close> p
      by (simp add: SplitN_def)
  qed
qed

lemma Itoa_no_underscore: "CHR ''_'' \<notin> set (Itoa i)"
  using decimal_digits is_digit_not_sign by (auto simp: Itoa_def)

lemmas parse_eval =
  securedData_def Itoa_def decimal.simps digit_char_def ParseSecuredData_def SplitN_def
  Atoi_def ParseInt_def ParseUint_def is_digit_def cutoff_def maxUint64_def

text \<open>
  C1 (as stated, refuted). The claim asks that parsing the composed string returns
  the three components for every raw data string, also one that contains an
  underscore. For counter 0, raw data \<open>a_b\<close> and last signature \<open>ZDE=\<close> the composed
  string is \<open>0_a_b_ZDE=\<close>; the split is limited to three parts from the left, so the
  data field returned is \<open>a\<close> and the trailing field is \<open>b_ZDE=\<close>.
\<close>

theorem C1_underscore_counterexample:
  "ParseSecuredData (securedData 0 ''a_b'' ''ZDE='') = Inr (0, ''a'', ''b_ZDE='')
   \<and> ParseSecuredData (securedData 0 ''a_b'' ''ZDE='') \<noteq> Inr (0, ''a_b'', ''ZDE='')"
  by (simp add: parse_eval)

text \<open>
  C1 (amended). For every counter, every last signature and every raw data string
  that contains no underscore, \<open>ParseSecuredData\<close> applied to the string composed by
  \<open>SignTransaction\<close> returns exactly the counter, the raw data and the last signature.
\<close>

theorem C1_parse_inverts_compose:
  assumes "CHR ''_'' \<notin> set data"
  shows "ParseSecuredData (securedData c data lsig) = Inr (c, data, lsig)"
proof -
  have 1: "Cut (CHR ''_'') (securedData c data lsig) = Some (Itoa (sint c), data @ ''_'' @ lsig)"
    unfolding securedData_def using Cut_append [OF Itoa_no_underscore] by simp
  have 2: "Cut (CHR ''_'') (data @ ''_'' @ lsig) = Some (data, lsig)"
    using Cut_append [OF assms] by simp
  show ?thesis
    using 2 by (simp add: ParseSecuredData_def SplitN_3 1 Atoi_Itoa)
qed

theorem C1_parse_inverts_compose_witness:
  "CHR ''_'' \<notin> set ''hello world''
   \<and> ParseSecuredData (securedData 7 ''hello world'' ''ZDE='') = Inr (7, ''hello world'', ''ZDE='')"
  using C1_parse_inverts_compose [of "''hello world''" 7 "''ZDE=''"] by simp

section \<open>When parsing fails\<close>

lemma foldl_dec_mono: "(n::nat) \<le> foldl (\<lambda>a c. a * 10 + (of_char c - 48)) n cs"
proof (induction cs arbitrary: n)
  case Nil
  show ?case by simp
next
  case (Cons c cs)
  have "n \<le> n * 10 + (of_char c - 48)" by simp
  also have "\<dots> \<le> foldl (\<lambda>a c. a * 10 + (of_char c - 48)) (n * 10 + (of_char c - 48)) cs"
    by (rule Cons.IH)
  finally show ?case by simp
qed

lemma ParseUint_loop_Inr:
  "n \<le> maxUint64 \<Longrightarrow>
   ParseUint_loop n cs = Inr v \<longleftrightarrow>
     list_all is_digit cs \<and> v = foldl (\<lambda>a c. a * 10 + (of_char c - 48)) n cs \<and> v \<le> maxUint64"
proof (induction cs arbitrary: n)
  case Nil
  then show ?case by auto
next
  case (Cons c cs)
  let ?n1 = "n * 10 + (of_char c - 48)"
  let ?f = "foldl (\<lambda>a c. a * 10 + (of_char c - 48))"
  have mono: "?n1 \<le> ?f ?n1 cs" by (rule foldl_dec_mono)
  show ?case
  proof (cases "is_digit c")
    case False
    then show ?thesis by simp
  next
    case True
    show ?thesis
    proof (cases "cutoff \<le> n")
      case big: True
      then have "maxUint64 < ?n1" by (simp add: cutoff_def maxUint64_def)
      with mono have "maxUint64 < ?f ?n1 cs" by linarith
      with big True show ?thesis by auto
    next
      case small: False
      show ?thesis
      proof (cases "maxUint64 < ?n1")
        case True
        with mono have "maxUint64 < ?f ?n1 cs" by linarith
        with True small \<open>is_digit c\<close> show ?thesis by auto
      next
        case False
        then have "?n1 \<le> maxUint64" by simp
        from Cons.IH [OF this] False small \<open>is_digit c\<close> show ?thesis
          by (simp add: Let_def)
      qed
    qed
  qed
qed

lemma ParseUint_Inr:
  "ParseUint s = Inr v \<longleftrightarrow> s \<noteq> [] \<and> list_all is_digit s \<and> v = dec_value s \<and> v \<le> maxUint64"
  by (auto simp: ParseUint_def ParseUint_loop_Inr [of 0] dec_value_def)

lemma ParseInt_fails: "isl (ParseInt s) \<longleftrightarrow> \<not> atoi_accepts s"
proof (cases "s = []")
  case True
  then show ?thesis by (simp add: ParseInt_def atoi_accepts_def)
next
  case False
  define body where "body = (if hd s = CHR ''+'' \<or> hd s = CHR ''-'' then tl s else s)"
  show ?thesis
  proof (cases "ParseUint body")
    case (Inl k)
    then have "\<not> (body \<noteq> [] \<and> list_all is_digit body \<and> dec_value body \<le> maxUint64)"
      using ParseUint_Inr [of body "dec_value body"] by auto
    then have "\<not> atoi_accepts s"
      using False by (auto simp: atoi_accepts_def body_def Let_def maxUint64_def split: if_splits)
    moreover have "isl (ParseInt s)"
      using False Inl by (cases k) (simp_all add: ParseInt_def body_def)
    ultimately show ?thesis by simp
  next
    case (Inr un)
    then have "body \<noteq> []" "list_all is_digit body" "un = dec_value body"
      using ParseUint_Inr [of body un] by auto
    then show ?thesis
      using False Inr
      by (auto simp: ParseInt_def atoi_accepts_def body_def [symmetric] Let_def)
  qed
qed

lemma Atoi_fails: "isl (Atoi s) \<longleftrightarrow> \<not> atoi_accepts s"
  using ParseInt_fails [of s] by (cases "ParseInt s") (simp_all add: Atoi_def)

lemma count_Cut_None: "Cut sep s = None \<Longrightarrow> count_list s sep = 0"
  by (simp add: Cut_None)

lemma count_Cut_Some: "Cut sep s = Some (a, b) \<Longrightarrow> count_list s sep = Suc (count_list b sep)"
  by (auto dest!: Cut_Some)

lemma takeWhile_Cut_Some: "Cut sep s = Some (a, b) \<Longrightarrow> takeWhile (\<lambda>c. c \<noteq> sep) s = a"
  by (auto dest!: Cut_Some simp: takeWhile_append)

lemma parse_fails_iff:
  "isl (ParseSecuredData s) \<longleftrightarrow>
     count_list s (CHR ''_'') < 2 \<or> \<not> atoi_accepts (takeWhile (\<lambda>c. c \<noteq> CHR ''_'') s)"
proof (cases "Cut (CHR ''_'') s")
  case None
  then show ?thesis
    by (simp add: ParseSecuredData_def SplitN_3 count_Cut_None)
next
  case (Some p)
  obtain a r where p: "p = (a, r)" by (cases p)
  note s = Some [unfolded p]
  show ?thesis
  proof (cases "Cut (CHR ''_'') r")
    case None
    then show ?thesis
      using s by (simp add: ParseSecuredData_def SplitN_3 count_Cut_Some [OF s] count_Cut_None)
  next
    case (Some q)
    obtain b c where q: "q = (b, c)" by (cases q)
    note r = Some [unfolded q]
    have "\<not> count_list s (CHR ''_'') < 2"
      by (simp add: count_Cut_Some [OF s] count_Cut_Some [OF r])
    moreover have "isl (ParseSecuredData s) \<longleftrightarrow> isl (Atoi a)"
      using s r by (cases "Atoi a") (simp_all add: ParseSecuredData_def SplitN_3)
    ultimately show ?thesis
      by (simp add: Atoi_fails takeWhile_Cut_Some [OF s])
  qed
qed

text \<open>
  C4 (as stated, refuted). The claim says that parsing fails exactly when there are
  fewer than three parts or the counter field is not a non-negative decimal integer.
  The input \<open>-1_a_b\<close> has a signed counter field and is parsed, to the counter \<open>-1\<close>;
  the input \<open>99999999999999999999_a_b\<close> has two underscores and a counter field of
  decimal digits only, and fails, since the value leaves the range of \<^verbatim>\<open>int\<close>.
\<close>

theorem C4_counter_field_counterexample:
  "ParseSecuredData ''-1_a_b'' = Inr (- 1, ''a'', ''b'')
   \<and> \<not> nonneg_decimal ''-1''
   \<and> isl (ParseSecuredData ''99999999999999999999_a_b'')
   \<and> nonneg_decimal ''99999999999999999999''
   \<and> count_list ''99999999999999999999_a_b'' (CHR ''_'') = 2"
  by (simp add: parse_eval nonneg_decimal_def)

text \<open>
  C4 (amended). \<open>ParseSecuredData\<close> succeeds exactly when the input contains at least
  two underscores and its first field, the text before the first underscore, is an
  optional sign \<open>+\<close> or \<open>-\<close> followed by one or more decimal digits that denote a value
  from \<open>-2^63\<close> to \<open>2^63 - 1\<close>; in every other case it fails.
\<close>

theorem C4_parse_succeeds_iff:
  "\<not> isl (ParseSecuredData s) \<longleftrightarrow>
     2 \<le> count_list s (CHR ''_'') \<and> atoi_accepts (takeWhile (\<lambda>c. c \<noteq> CHR ''_'') s)"
  using parse_fails_iff [of s] by auto

theorem C4_parse_succeeds_iff_witness:
  "\<not> isl (ParseSecuredData ''+12_x_y_z'') \<and> isl (ParseSecuredData ''abc_data'')
   \<and> isl (ParseSecuredData ''1.5_a_b'')"
  using C4_parse_succeeds_iff [of "''+12_x_y_z''"] C4_parse_succeeds_iff [of "''abc_data''"]
    C4_parse_succeeds_iff [of "''1.5_a_b''"]
  by (simp add: atoi_accepts_def dec_value_def is_digit_def)

section \<open>The standard base64 encoding and the decimal notation\<close>

lemmas b64_eval = b64_def encodeStd_def Let_def

lemma b64_rfc4648_vectors:
  "EncodeToString ''f'' = ''Zg==''"
  "EncodeToString ''fo'' = ''Zm8=''"
  "EncodeToString ''foo'' = ''Zm9v''"
  "EncodeToString ''foobar'' = ''Zm9vYmFy''"
  "EncodeToString ''d1'' = ''ZDE=''"
  by (simp_all add: b64_eval)

lemma EncodeToString_length: "length (EncodeToString bs) = 4 * ((length bs + 2) div 3)"
proof (induction bs rule: EncodeToString.induct)
  case (4 a b c rest)
  have "(length rest + 5) div 3 = Suc ((length rest + 2) div 3)" by arith
  with 4 show ?case by (simp add: Let_def add.commute)
qed (simp_all add: Let_def)

lemma b64_in_alphabet: "n < 64 \<Longrightarrow> b64 n \<in> set encodeStd"
  unfolding b64_def by (rule nth_mem) (simp add: encodeStd_def)

lemma of_char_lt_256: "(of_char c :: nat) < 256"
  by (cases c) simp

lemma EncodeToString_alphabet:
  "c \<in> set (EncodeToString bs) \<Longrightarrow> c \<in> set encodeStd \<or> c = CHR ''=''"
proof (induction bs rule: EncodeToString.induct)
  case 1
  then show ?case by simp
next
  case (2 a)
  have "(of_char a :: nat) < 256" by (rule of_char_lt_256)
  then have "(of_char a :: nat) div 4 < 64" "(of_char a :: nat) mod 4 * 16 < 64" by arith+
  with 2 show ?case by (auto simp: Let_def b64_in_alphabet)
next
  case (3 a b)
  have "(of_char a :: nat) < 256" "(of_char b :: nat) < 256" by (rule of_char_lt_256)+
  then have "(of_char a :: nat) div 4 < 64"
    "(of_char a :: nat) mod 4 * 16 + of_char b div 16 < 64"
    "(of_char b :: nat) mod 16 * 4 < 64" by arith+
  with 3 show ?case by (auto simp: Let_def b64_in_alphabet)
next
  case (4 a b c' rest)
  have "(of_char a :: nat) < 256" "(of_char b :: nat) < 256" "(of_char c' :: nat) < 256"
    by (rule of_char_lt_256)+
  then have "(of_char a :: nat) div 4 < 64"
    "(of_char a :: nat) mod 4 * 16 + of_char b div 16 < 64"
    "(of_char b :: nat) mod 16 * 4 + of_char c' div 64 < 64"
    "(of_char c' :: nat) mod 64 < 64" by arith+
  with 4 show ?case by (auto simp: Let_def b64_in_alphabet)
qed

lemma EncodeToString_no_underscore: "CHR ''_'' \<notin> set (EncodeToString bs)"
  using EncodeToString_alphabet [of "CHR ''_''" bs] by (auto simp: encodeStd_def)

lemma dec_value_snoc: "dec_value (ds @ [c]) = dec_value ds * 10 + (of_char c - 48)"
  by (simp add: dec_value_def)

lemma dec_value_decimal: "dec_value (decimal n) = n"
proof (induction n rule: decimal.induct)
  case (1 n)
  show ?case
  proof (cases "n < 10")
    case True
    then show ?thesis
      by (subst decimal.simps) (simp add: dec_value_def of_char_digit_char)
  next
    case False
    then show ?thesis
      using "1.IH" by (subst decimal.simps) (simp add: dec_value_snoc of_char_digit_char)
  qed
qed

lemma decimal_all_digits: "list_all is_digit (decimal n)"
  using decimal_digits by (auto simp: list_all_iff)

lemma hd_decimal_nonzero: "0 < n \<Longrightarrow> hd (decimal n) \<noteq> CHR ''0''"
proof (induction n rule: decimal.induct)
  case (1 n)
  show ?case
  proof (cases "n < 10")
    case True
    with "1.prems" have "n \<in> {1, 2, 3, 4, 5, 6, 7, 8, 9}" by auto
    then show ?thesis by (subst decimal.simps) (auto simp: digit_char_def)
  next
    case False
    then have "0 < n div 10" by simp
    from "1.IH" [OF False this] False show ?thesis
      by (subst decimal.simps) (simp add: decimal_not_Nil)
  qed
qed

section \<open>Signing on a device\<close>

lemma SignTransaction_result:
  "SignTransaction L d data h w = (res, h', w') \<Longrightarrow>
     (isl res \<and> h' = h) \<or>
     (\<exists>signer signature.
        GetSigner L h d = Inr signer \<and>
        Sign L signer (securedData (SignatureCounter (devices_mem h ! d)) data
                         (LastSignature (devices_mem h ! d))) w = (Inr signature, w') \<and>
        res = Inr (EncodeToString signature,
                   securedData (SignatureCounter (devices_mem h ! d)) data
                     (LastSignature (devices_mem h ! d))) \<and>
        h' = h\<lparr>devices_mem := (devices_mem h)
               [d := (devices_mem h ! d)\<lparr>LastSignature := EncodeToString signature,
                      SignatureCounter := SignatureCounter (devices_mem h ! d) + 1\<rparr>]\<rparr>)"
  by (auto simp: SignTransaction_def Let_def split: sum.splits prod.splits)

lemma SignTransaction_ok:
  assumes "SignTransaction L d data h w = (Inr out, h', w')" and "d < length (devices_mem h)"
  shows "snd out = securedData (SignatureCounter (devices_mem h ! d)) data
                     (LastSignature (devices_mem h ! d))"
    and "SignatureCounter (devices_mem h' ! d) = SignatureCounter (devices_mem h ! d) + 1"
    and "LastSignature (devices_mem h' ! d) = fst out"
    and "length (devices_mem h') = length (devices_mem h)"
    and "\<exists>signer signature. GetSigner L h d = Inr signer \<and>
           Sign L signer (snd out) w = (Inr signature, w') \<and> fst out = EncodeToString signature"
  using SignTransaction_result [OF assms(1)] assms(2) by auto

lemma sign_all_ok:
  assumes "sign_all L d xs h w = (Inr outs, h', w')" and "d < length (devices_mem h)"
  shows "length outs = length xs
       \<and> SignatureCounter (devices_mem h' ! d) =
           SignatureCounter (devices_mem h ! d) + of_nat (length xs)
       \<and> LastSignature (devices_mem h' ! d) =
           (if xs = [] then LastSignature (devices_mem h ! d) else fst (last outs))
       \<and> chain (SignatureCounter (devices_mem h ! d)) (LastSignature (devices_mem h ! d)) xs outs"
  using assms
proof (induction xs arbitrary: h w outs)
  case Nil
  then show ?case by simp
next
  case (Cons x xs)
  from Cons.prems(1) obtain out h1 w1 outs' where
    st: "SignTransaction L d x h w = (Inr out, h1, w1)" and
    rest: "sign_all L d xs h1 w1 = (Inr outs', h', w')" and
    outs: "outs = out # outs'"
    by (auto split: sum.splits prod.splits)
  note one = SignTransaction_ok [OF st Cons.prems(2)]
  have d1: "d < length (devices_mem h1)" using one(4) Cons.prems(2) by simp
  note ih = Cons.IH [OF rest d1]
  have len: "length outs' = length xs" using ih by simp
  show ?case
  proof (intro conjI)
    show "length outs = length (x # xs)" using len outs by simp
    show "SignatureCounter (devices_mem h' ! d) =
            SignatureCounter (devices_mem h ! d) + of_nat (length (x # xs))"
      using ih one(2) by simp
    show "LastSignature (devices_mem h' ! d) =
            (if x # xs = [] then LastSignature (devices_mem h ! d) else fst (last outs))"
      using ih one(3) outs len by (cases xs) auto
    show "chain (SignatureCounter (devices_mem h ! d)) (LastSignature (devices_mem h ! d))
            (x # xs) outs"
      using ih one(1,2,3) outs by simp
  qed
qed

lemma NewSignatureDevice_ok:
  assumes "NewSignatureDevice L ident algorithm label h w = (Inr p, h', w')"
  shows "p = length (devices_mem h)"
    and "length (devices_mem h') = Suc (length (devices_mem h))"
    and "ID (devices_mem h' ! p) = ident"
    and "Label (devices_mem h' ! p) = label"
    and "Algorithm (devices_mem h' ! p) = algorithm"
    and "SignatureCounter (devices_mem h' ! p) = 0"
    and "LastSignature (devices_mem h' ! p) = EncodeToString ident"
    and "ident \<noteq> []" and "algorithm = RSA \<or> algorithm = ECC"
  using assms
  by (auto simp: NewSignatureDevice_def Let_def new_bytes_def new_device_def
           split: if_splits sum.splits prod.splits)

lemma sint_succ: "sint (c :: go_int) < 2 ^ 63 - 1 \<Longrightarrow> sint (c + 1) = sint c + 1"
proof -
  assume a: "sint c < 2 ^ 63 - 1"
  have b: "- (2 ^ 63) \<le> sint c" using sint_ge [of c] by simp
  have "sint (c + 1) = signed_take_bit 63 (sint c + 1)"
    by (simp add: sint_word_ariths)
  also have "\<dots> = sint c + 1"
    using a b by (simp add: signed_take_bit_int_eq_self)
  finally show ?thesis .
qed

lemma sint_of_nat_small: "n < 2 ^ 63 \<Longrightarrow> sint (of_nat n :: go_int) = int n"
proof -
  assume a: "n < 2 ^ 63"
  have "(of_nat n :: go_int) = word_of_int (int n)" by simp
  then have "sint (of_nat n :: go_int) = signed_take_bit 63 (int n)"
    by (simp only: sint_sbintrunc') simp
  also have "\<dots> = int n"
    using a by (simp add: signed_take_bit_int_eq_self)
  finally show ?thesis .
qed

lemmas dev_eval =
  NewSignatureDevice_def SignTransaction_def GetSigner_def ECCMarshal_def ECCUnmarshal_def
  ECCSign_def demo_lib_def RSA_def ECC_def new_bytes_def new_device_def bytes_of_def
  empty_heap_def securedData_def Itoa_def decimal.simps digit_char_def b64_eval

lemma demo_new:
  "NewSignatureDevice demo_lib ''d1'' RSA ''L'' empty_heap 0 = (Inr 0, demo_heap, 1)"
  by (simp add: dev_eval demo_heap_def)

lemma demo_sign:
  "SignTransaction demo_lib 0 ''hello'' demo_heap 1 =
     (Inr (''MF8='', ''0_hello_ZDE=''),
      demo_heap\<lparr>devices_mem :=
        [(devices_mem demo_heap ! 0)\<lparr>SignatureCounter := 1, LastSignature := ''MF8=''\<rparr>]\<rparr>, 1)"
  by (simp add: dev_eval demo_heap_def)

text \<open>
  C3. \<open>SignTransaction\<close> is all-or-nothing. If no signer can be obtained from the
  stored private key, or if the signer fails, the call returns an error and the
  memory after the call is the memory before it, so the device's counter and last
  signature are as they were; if the call returns any error the memory is
  unchanged; and the memory changes only when the signer has produced a signature.
\<close>

theorem C3_sign_all_or_nothing:
  assumes "SignTransaction L d data h w = (res, h', w')"
  shows "(isl (GetSigner L h d) \<longrightarrow> isl res \<and> h' = h)
       \<and> (\<forall>signer. GetSigner L h d = Inr signer \<and>
             isl (fst (Sign L signer (securedData (SignatureCounter (devices_mem h ! d)) data
                    (LastSignature (devices_mem h ! d))) w)) \<longrightarrow> isl res \<and> h' = h)
       \<and> (isl res \<longrightarrow> h' = h)
       \<and> (h' \<noteq> h \<longrightarrow> (\<exists>signer signature. GetSigner L h d = Inr signer \<and>
             Sign L signer (securedData (SignatureCounter (devices_mem h ! d)) data
                    (LastSignature (devices_mem h ! d))) w = (Inr signature, w')))"
  using assms
  by (auto simp: SignTransaction_def Let_def split: sum.splits prod.splits)

theorem C3_sign_all_or_nothing_witness:
  "isl (GetSigner demo_lib keyless_heap 0)
   \<and> SignTransaction demo_lib 0 ''hello'' keyless_heap 5 =
       (Inl (Wrap ''failed to get signer''
               (Wrap ''failed to unmarshal RSA key pair'' (New ''no key''))), keyless_heap, 5)"
proof -
  have run: "SignTransaction demo_lib 0 ''hello'' keyless_heap 5 =
       (Inl (Wrap ''failed to get signer''
               (Wrap ''failed to unmarshal RSA key pair'' (New ''no key''))), keyless_heap, 5)"
    by (simp add: dev_eval keyless_heap_def)
  have "isl (GetSigner demo_lib keyless_heap 0)"
    by (simp add: dev_eval keyless_heap_def)
  with C3_sign_all_or_nothing [OF run] run show ?thesis by simp
qed


text \<open>
  C5. For a device just created by \<open>NewSignatureDevice\<close> and a run of \<open>N\<close> successful
  \<open>SignTransaction\<close> calls on it, the final counter is \<open>N\<close> (as a value of \<^verbatim>\<open>int\<close>, and
  as a number whenever \<open>N\<close> is below \<open>2^63\<close>), the final last signature is the
  signature returned by the last call (the seed when \<open>N = 0\<close>), and the secured data
  of the calls carry the counters \<open>0, 1, \<dots>\<close> and the signature returned just before.
  In every single call the counter grows by one when the call succeeds and stays when
  it fails, so it neither decreases nor is reset below the largest value of \<^verbatim>\<open>int\<close>.
\<close>

theorem C5_counter_counts_signs:
  "(NewSignatureDevice L ident algorithm label h w = (Inr p, h1, w1) \<and>
    sign_all L p xs h1 w1 = (Inr outs, h2, w2) \<longrightarrow>
      length outs = length xs
      \<and> SignatureCounter (devices_mem h2 ! p) = of_nat (length xs)
      \<and> (length xs < 2 ^ 63 \<longrightarrow> sint (SignatureCounter (devices_mem h2 ! p)) = int (length xs))
      \<and> LastSignature (devices_mem h2 ! p) =
          (if xs = [] then EncodeToString ident else fst (last outs))
      \<and> chain 0 (EncodeToString ident) xs outs)
   \<and> (d < length (devices_mem g) \<and> SignTransaction L d data g v = (res, g', v') \<longrightarrow>
      SignatureCounter (devices_mem g' ! d) =
        SignatureCounter (devices_mem g ! d) + (if isl res then 0 else 1)
      \<and> (sint (SignatureCounter (devices_mem g ! d)) < 2 ^ 63 - 1 \<longrightarrow>
           sint (SignatureCounter (devices_mem g' ! d)) =
             sint (SignatureCounter (devices_mem g ! d)) + (if isl res then 0 else 1)))"
proof (intro conjI impI)
  assume a: "NewSignatureDevice L ident algorithm label h w = (Inr p, h1, w1) \<and>
    sign_all L p xs h1 w1 = (Inr outs, h2, w2)"
  note new = NewSignatureDevice_ok [OF a [THEN conjunct1]]
  have valid: "p < length (devices_mem h1)" using new(1,2) by simp
  note run = sign_all_ok [OF a [THEN conjunct2] valid]
  show "length outs = length xs" using run by simp
  show c: "SignatureCounter (devices_mem h2 ! p) = of_nat (length xs)"
    using run new(6) by simp
  show "LastSignature (devices_mem h2 ! p) =
          (if xs = [] then EncodeToString ident else fst (last outs))"
    using run new(7) by simp
  show "chain 0 (EncodeToString ident) xs outs" using run new(6,7) by simp
  assume "length xs < 2 ^ 63"
  then show "sint (SignatureCounter (devices_mem h2 ! p)) = int (length xs)"
    by (simp only: c sint_of_nat_small)
next
  assume b: "d < length (devices_mem g) \<and> SignTransaction L d data g v = (res, g', v')"
  from SignTransaction_result [OF b [THEN conjunct2]] b
  show step: "SignatureCounter (devices_mem g' ! d) =
        SignatureCounter (devices_mem g ! d) + (if isl res then 0 else 1)"
    by auto
  assume "sint (SignatureCounter (devices_mem g ! d)) < 2 ^ 63 - 1"
  then show "sint (SignatureCounter (devices_mem g' ! d)) =
             sint (SignatureCounter (devices_mem g ! d)) + (if isl res then 0 else 1)"
    by (simp add: step sint_succ)
qed

lemma demo_run:
  "sign_all demo_lib 0 [''hello'', ''world''] demo_heap 1 =
     (Inr [(''MF8='', ''0_hello_ZDE=''), (''MV8='', ''1_world_MF8='')],
      demo_heap\<lparr>devices_mem :=
        [(devices_mem demo_heap ! 0)\<lparr>SignatureCounter := 2, LastSignature := ''MV8=''\<rparr>]\<rparr>, 1)"
  by (simp add: dev_eval demo_heap_def)

theorem C5_counter_counts_signs_witness:
  "NewSignatureDevice demo_lib ''d1'' RSA ''L'' empty_heap 0 = (Inr 0, demo_heap, 1)
   \<and> sign_all demo_lib 0 [''hello'', ''world''] demo_heap 1 =
     (Inr [(''MF8='', ''0_hello_ZDE=''), (''MV8='', ''1_world_MF8='')],
      demo_heap\<lparr>devices_mem :=
        [(devices_mem demo_heap ! 0)\<lparr>SignatureCounter := 2, LastSignature := ''MV8=''\<rparr>]\<rparr>, 1)
   \<and> length [''hello'', ''world''] < (2::nat) ^ 63
   \<and> sint (SignatureCounter (devices_mem (demo_heap\<lparr>devices_mem :=
        [(devices_mem demo_heap ! 0)\<lparr>SignatureCounter := 2, LastSignature := ''MV8=''\<rparr>]\<rparr>) ! 0)) = 2
   \<and> (0::nat) < length (devices_mem demo_heap)
   \<and> sint (SignatureCounter (devices_mem demo_heap ! 0)) < 2 ^ 63 - 1
   \<and> sint (SignatureCounter (devices_mem (fst (snd (SignTransaction demo_lib 0 ''hello'' demo_heap 1))) ! 0)) = 1"
proof -
  have valid: "(0::nat) < length (devices_mem demo_heap)" by (simp add: demo_heap_def)
  note run = C5_counter_counts_signs [THEN conjunct1, THEN mp, OF conjI, OF demo_new demo_run]
  note step = C5_counter_counts_signs [THEN conjunct2, THEN mp, OF conjI, OF valid demo_sign]
  show ?thesis
    using run step demo_new demo_run demo_sign by (simp add: demo_heap_def)
qed

text \<open>
  C6. When \<open>SignTransaction\<close> succeeds, the secured data returned is the counter
  printed by \<^verbatim>\<open>%d\<close>, an underscore, the data, an underscore and the last signature; for
  a counter that is not negative the printed counter is its unsigned decimal numeral;
  the signature returned is the standard base64 encoding of the bytes produced by the
  signer. A device returned by \<open>NewSignatureDevice\<close> has as last signature the
  standard base64 encoding of its id, and counter 0.
\<close>

theorem C6_wire_formats:
  "(SignTransaction L d data h w = (Inr (sig, sd), h', w') \<longrightarrow>
      sd = Itoa (sint (SignatureCounter (devices_mem h ! d))) @ ''_'' @ data @ ''_'' @
             LastSignature (devices_mem h ! d)
      \<and> (0 \<le> sint (SignatureCounter (devices_mem h ! d)) \<longrightarrow>
           Itoa (sint (SignatureCounter (devices_mem h ! d))) =
             decimal (nat (sint (SignatureCounter (devices_mem h ! d))))
           \<and> list_all is_digit (Itoa (sint (SignatureCounter (devices_mem h ! d))))
           \<and> int (dec_value (Itoa (sint (SignatureCounter (devices_mem h ! d))))) =
               sint (SignatureCounter (devices_mem h ! d)))
      \<and> (\<exists>signer signature. GetSigner L h d = Inr signer \<and>
            Sign L signer sd w = (Inr signature, w') \<and> sig = EncodeToString signature))
   \<and> (NewSignatureDevice L ident algorithm label h0 w0 = (Inr p, h1, w1) \<longrightarrow>
        ID (devices_mem h1 ! p) = ident
        \<and> LastSignature (devices_mem h1 ! p) = EncodeToString ident
        \<and> SignatureCounter (devices_mem h1 ! p) = 0)"
proof (intro conjI impI)
  assume a: "SignTransaction L d data h w = (Inr (sig, sd), h', w')"
  from SignTransaction_result [OF a]
  show "sd = Itoa (sint (SignatureCounter (devices_mem h ! d))) @ ''_'' @ data @ ''_'' @
             LastSignature (devices_mem h ! d)"
    by (auto simp: securedData_def)
  from SignTransaction_result [OF a]
  show "\<exists>signer signature. GetSigner L h d = Inr signer \<and>
            Sign L signer sd w = (Inr signature, w') \<and> sig = EncodeToString signature"
    by auto
  assume nn: "0 \<le> sint (SignatureCounter (devices_mem h ! d))"
  then show it: "Itoa (sint (SignatureCounter (devices_mem h ! d))) =
             decimal (nat (sint (SignatureCounter (devices_mem h ! d))))"
    by (simp add: Itoa_def)
  show "list_all is_digit (Itoa (sint (SignatureCounter (devices_mem h ! d))))"
    by (simp only: it decimal_all_digits)
  show "int (dec_value (Itoa (sint (SignatureCounter (devices_mem h ! d))))) =
               sint (SignatureCounter (devices_mem h ! d))"
    using nn by (simp add: it dec_value_decimal)
next
  assume b: "NewSignatureDevice L ident algorithm label h0 w0 = (Inr p, h1, w1)"
  note new = NewSignatureDevice_ok [OF b]
  show "ID (devices_mem h1 ! p) = ident" by (rule new(3))
  show "LastSignature (devices_mem h1 ! p) = EncodeToString ident" by (rule new(7))
  show "SignatureCounter (devices_mem h1 ! p) = 0" by (rule new(6))
qed

theorem C6_wire_formats_witness:
  "SignTransaction demo_lib 0 ''hello'' demo_heap 1 =
     (Inr (''MF8='', ''0_hello_ZDE=''),
      demo_heap\<lparr>devices_mem :=
        [(devices_mem demo_heap ! 0)\<lparr>SignatureCounter := 1, LastSignature := ''MF8=''\<rparr>]\<rparr>, 1)
   \<and> 0 \<le> sint (SignatureCounter (devices_mem demo_heap ! 0))
   \<and> (\<exists>signer. GetSigner demo_lib demo_heap 0 = Inr signer \<and>
         Sign demo_lib signer ''0_hello_ZDE='' 1 = (Inr ''0_'', 1))
   \<and> EncodeToString ''0_'' = ''MF8=''
   \<and> NewSignatureDevice demo_lib ''d1'' RSA ''L'' empty_heap 0 = (Inr 0, demo_heap, 1)
   \<and> LastSignature (devices_mem demo_heap ! 0) = EncodeToString ''d1''"
proof -
  note sign = C6_wire_formats [THEN conjunct1, THEN mp, OF demo_sign]
  note new = C6_wire_formats [THEN conjunct2, THEN mp, OF demo_new]
  show ?thesis
    using sign new demo_new demo_sign by (simp add: demo_heap_def dev_eval)
qed

section \<open>The repository\<close>

lemma copy_slice_cases:
  "copy_slice h s = (h', s') \<Longrightarrow>
     devices_mem h' = devices_mem h \<and>
     (case s of None \<Rightarrow> h' = h \<and> s' = None
      | Some a \<Rightarrow> arrays_mem h' = arrays_mem h @ [arrays_mem h ! a] \<and> s' = Some (length (arrays_mem h)))"
  by (auto simp: copy_slice_def new_bytes_def split: option.splits)

lemma Clone_Some:
  assumes "valid_dev h p" and "Clone h (Some p) = (h', c)"
  shows "c = Some (length (devices_mem h))"
    and "length (devices_mem h') = Suc (length (devices_mem h))"
    and "\<forall>a < length (devices_mem h). devices_mem h' ! a = devices_mem h ! a"
    and "length (arrays_mem h) \<le> length (arrays_mem h')"
    and "\<forall>s < length (arrays_mem h). arrays_mem h' ! s = arrays_mem h ! s"
    and "view h' (length (devices_mem h)) = view h p"
    and "\<forall>s \<in> keys_of h' (length (devices_mem h)).
           length (arrays_mem h) \<le> s \<and> s < length (arrays_mem h')"
proof -
  let ?src = "devices_mem h ! p"
  let ?n = "length (devices_mem h)"
  have p: "p < ?n" using assms(1) by (simp add: valid_dev_def)
  have pub: "\<And>a. PublicKey ?src = Some a \<Longrightarrow> a < length (arrays_mem h)"
    and priv: "\<And>a. PrivateKey ?src = Some a \<Longrightarrow> a < length (arrays_mem h)"
    using assms(1) by (auto simp: valid_dev_def keys_of_def)
  from assms(2) p show "c = Some ?n"
    by (auto simp: Clone_def Let_def new_device_def split: prod.splits)
  from assms(2) p pub priv
  show "length (devices_mem h') = Suc ?n"
    "\<forall>a < ?n. devices_mem h' ! a = devices_mem h ! a"
    "length (arrays_mem h) \<le> length (arrays_mem h')"
    "\<forall>s < length (arrays_mem h). arrays_mem h' ! s = arrays_mem h ! s"
    "view h' ?n = view h p"
    "\<forall>s \<in> keys_of h' ?n. length (arrays_mem h) \<le> s \<and> s < length (arrays_mem h')"
    by (auto simp: Clone_def Let_def new_device_def copy_slice_def new_bytes_def view_def
          bytes_of_def keys_of_def nth_append split: prod.splits option.splits)
qed

lemma Clone_Some_ex:
  assumes "valid_dev h p"
  shows "\<exists>h'. Clone h (Some p) = (h', Some (length (devices_mem h)))
              \<and> view h' (length (devices_mem h)) = view h p"
proof -
  obtain h' c where c: "Clone h (Some p) = (h', c)" by (cases "Clone h (Some p)")
  from Clone_Some(1,6) [OF assms c] c show ?thesis by auto
qed

lemma Create_ok:
  assumes "ID (devices_mem h ! p) \<noteq> []" and "map_of r (ID (devices_mem h ! p)) = None"
  shows "fst (Create r h (Some p)) = None"
    and "valid_dev h p \<Longrightarrow>
         \<exists>r' h' c. Create r h (Some p) = (None, r', h') \<and>
            map_of r' = (map_of r)(ID (devices_mem h ! p) \<mapsto> Some c) \<and> view h' c = view h p"
proof -
  show "fst (Create r h (Some p)) = None"
    using assms by (simp add: Create_def split: prod.splits)
  assume "valid_dev h p"
  from Clone_Some_ex [OF this] obtain h' where
    "Clone h (Some p) = (h', Some (length (devices_mem h)))"
    "view h' (length (devices_mem h)) = view h p" by auto
  then show "\<exists>r' h' c. Create r h (Some p) = (None, r', h') \<and>
            map_of r' = (map_of r)(ID (devices_mem h ! p) \<mapsto> Some c) \<and> view h' c = view h p"
    using assms
    by (auto simp: Create_def update_conv' intro!: exI [of _ "length (devices_mem h)"])
qed

lemma Update_ok:
  assumes "ID (devices_mem h ! p) \<noteq> []" and "map_of r (ID (devices_mem h ! p)) \<noteq> None"
  shows "fst (Update r h (Some p)) = None"
    and "valid_dev h p \<Longrightarrow>
         \<exists>r' h' c. Update r h (Some p) = (None, r', h') \<and>
            map_of r' = (map_of r)(ID (devices_mem h ! p) \<mapsto> Some c) \<and> view h' c = view h p"
proof -
  show "fst (Update r h (Some p)) = None"
    using assms by (simp add: Update_def split: prod.splits)
  assume "valid_dev h p"
  from Clone_Some_ex [OF this] obtain h' where
    "Clone h (Some p) = (h', Some (length (devices_mem h)))"
    "view h' (length (devices_mem h)) = view h p" by auto
  then show "\<exists>r' h' c. Update r h (Some p) = (None, r', h') \<and>
            map_of r' = (map_of r)(ID (devices_mem h ! p) \<mapsto> Some c) \<and> view h' c = view h p"
    using assms
    by (auto simp: Update_def update_conv' intro!: exI [of _ "length (devices_mem h)"])
qed

lemma Get_ok:
  assumes "map_of r ident = Some (Some a)" and "valid_dev h a"
  shows "\<exists>h' c. Get r h ident = (Inr (Some c), h') \<and> view h' c = view h a"
  using Clone_Some_ex [OF assms(2)] assms(1) by (auto simp: Get_def)

text \<open>
  C7. The error contracts of the repository. \<open>Create\<close> fails with the message of
  kind \<open>ValidationError\<close> for a nil device and for an empty id, and with the one of
  kind \<open>DuplicateError\<close> when the id is present; \<open>Get\<close> and \<open>Delete\<close> fail with the
  one of kind \<open>NotFoundError\<close> when the id is absent; \<open>Update\<close> fails with
  \<open>ValidationError\<close> for a nil device and for an empty id and with \<open>NotFoundError\<close>
  when the id is absent. A failing operation leaves map and memory as they were. In
  every other case the operation succeeds: \<open>Create\<close> and \<open>Update\<close> bind the id to a
  copy with the content of the argument, replacing what was stored, \<open>Get\<close> returns a
  copy with the stored content, and \<open>Delete\<close> removes the id.
\<close>

theorem C7_store_error_contracts:
  "Create r h None = (Some (New ''device cannot be nil''), r, h)
   \<and> (ID (devices_mem h ! p) = [] \<longrightarrow>
        Create r h (Some p) = (Some (New ''device ID cannot be empty''), r, h))
   \<and> (ID (devices_mem h ! p) \<noteq> [] \<and> map_of r (ID (devices_mem h ! p)) \<noteq> None \<longrightarrow>
        Create r h (Some p) = (Some (New ''device with this ID already exists''), r, h))
   \<and> (ID (devices_mem h ! p) \<noteq> [] \<and> map_of r (ID (devices_mem h ! p)) = None \<longrightarrow>
        fst (Create r h (Some p)) = None \<and>
        (valid_dev h p \<longrightarrow> (\<exists>r' h' c. Create r h (Some p) = (None, r', h') \<and>
            map_of r' = (map_of r)(ID (devices_mem h ! p) \<mapsto> Some c) \<and> view h' c = view h p)))
   \<and> (map_of r ident = None \<longrightarrow> Get r h ident = (Inl (New ''device not found''), h))
   \<and> (map_of r ident \<noteq> None \<longrightarrow> \<not> isl (fst (Get r h ident)) \<and>
        (\<forall>a. map_of r ident = Some (Some a) \<and> valid_dev h a \<longrightarrow>
           (\<exists>h' c. Get r h ident = (Inr (Some c), h') \<and> view h' c = view h a)))
   \<and> (map_of r ident = None \<longrightarrow> Delete r ident = (Some (New ''device not found''), r))
   \<and> (map_of r ident \<noteq> None \<longrightarrow>
        (\<exists>r'. Delete r ident = (None, r') \<and> map_of r' = (map_of r)(ident := None)))
   \<and> Update r h None = (Some (New ''device cannot be nil''), r, h)
   \<and> (ID (devices_mem h ! p) = [] \<longrightarrow>
        Update r h (Some p) = (Some (New ''device ID cannot be empty''), r, h))
   \<and> (ID (devices_mem h ! p) \<noteq> [] \<and> map_of r (ID (devices_mem h ! p)) = None \<longrightarrow>
        Update r h (Some p) = (Some (New ''device not found''), r, h))
   \<and> (ID (devices_mem h ! p) \<noteq> [] \<and> map_of r (ID (devices_mem h ! p)) \<noteq> None \<longrightarrow>
        fst (Update r h (Some p)) = None \<and>
        (valid_dev h p \<longrightarrow> (\<exists>r' h' c. Update r h (Some p) = (None, r', h') \<and>
            map_of r' = (map_of r)(ID (devices_mem h ! p) \<mapsto> Some c) \<and> view h' c = view h p)))
   \<and> error_kind (New ''device cannot be nil'') = Some ValidationError
   \<and> error_kind (New ''device ID cannot be empty'') = Some ValidationError
   \<and> error_kind (New ''device with this ID already exists'') = Some DuplicateError
   \<and> error_kind (New ''device not found'') = Some NotFoundError"
proof (intro conjI impI allI)
  show "Create r h None = (Some (New ''device cannot be nil''), r, h)"
    by (simp add: Create_def)
  show "Update r h None = (Some (New ''device cannot be nil''), r, h)"
    by (simp add: Update_def)
  show "error_kind (New ''device cannot be nil'') = Some ValidationError"
    "error_kind (New ''device ID cannot be empty'') = Some ValidationError"
    "error_kind (New ''device with this ID already exists'') = Some DuplicateError"
    "error_kind (New ''device not found'') = Some NotFoundError"
    by (simp_all add: error_kind_def)
next
  assume "ID (devices_mem h ! p) = []"
  then show "Create r h (Some p) = (Some (New ''device ID cannot be empty''), r, h)"
    "Update r h (Some p) = (Some (New ''device ID cannot be empty''), r, h)"
    by (simp_all add: Create_def Update_def)
next
  assume "ID (devices_mem h ! p) \<noteq> [] \<and> map_of r (ID (devices_mem h ! p)) \<noteq> None"
  then show "Create r h (Some p) = (Some (New ''device with this ID already exists''), r, h)"
    by (simp add: Create_def)
next
  assume a: "ID (devices_mem h ! p) \<noteq> [] \<and> map_of r (ID (devices_mem h ! p)) = None"
  then show "fst (Create r h (Some p)) = None" using Create_ok(1) by blast
  from a show "Update r h (Some p) = (Some (New ''device not found''), r, h)"
    by (simp add: Update_def)
  assume "valid_dev h p"
  with a show "\<exists>r' h' c. Create r h (Some p) = (None, r', h') \<and>
            map_of r' = (map_of r)(ID (devices_mem h ! p) \<mapsto> Some c) \<and> view h' c = view h p"
    using Create_ok(2) by blast
next
  assume a: "ID (devices_mem h ! p) \<noteq> [] \<and> map_of r (ID (devices_mem h ! p)) \<noteq> None"
  then show "fst (Update r h (Some p)) = None" using Update_ok(1) by blast
  assume "valid_dev h p"
  with a show "\<exists>r' h' c. Update r h (Some p) = (None, r', h') \<and>
            map_of r' = (map_of r)(ID (devices_mem h ! p) \<mapsto> Some c) \<and> view h' c = view h p"
    using Update_ok(2) by blast
next
  assume "map_of r ident = None"
  then show "Get r h ident = (Inl (New ''device not found''), h)"
    "Delete r ident = (Some (New ''device not found''), r)"
    by (simp_all add: Get_def Delete_def)
next
  assume a: "map_of r ident \<noteq> None"
  then show "\<not> isl (fst (Get r h ident))"
    by (auto simp: Get_def split: prod.splits)
  from a show "\<exists>r'. Delete r ident = (None, r') \<and> map_of r' = (map_of r)(ident := None)"
    by (simp add: Delete_def delete_conv')
next
  fix a
  assume "map_of r ident = Some (Some a) \<and> valid_dev h a"
  then show "\<exists>h' c. Get r h ident = (Inr (Some c), h') \<and> view h' c = view h a"
    using Get_ok by blast
qed

theorem C7_store_error_contracts_witness:
  "ID (devices_mem demo_heap ! 0) \<noteq> [] \<and> map_of [] (ID (devices_mem demo_heap ! 0)) = None
   \<and> fst (Create [] demo_heap (Some 0)) = None
   \<and> Update [] demo_heap (Some 0) = (Some (New ''device not found''), [], demo_heap)
   \<and> Get [] demo_heap ''d1'' = (Inl (New ''device not found''), demo_heap)
   \<and> Delete [] ''d1'' = (Some (New ''device not found''), [])
   \<and> map_of [(''d1'', Some 0)] (ID (devices_mem demo_heap ! 0)) \<noteq> None
   \<and> Create [(''d1'', Some 0)] demo_heap (Some 0) =
        (Some (New ''device with this ID already exists''), [(''d1'', Some 0)], demo_heap)
   \<and> fst (Update [(''d1'', Some 0)] demo_heap (Some 0)) = None
   \<and> \<not> isl (fst (Get [(''d1'', Some 0)] demo_heap ''d1''))
   \<and> (\<exists>r'. Delete [(''d1'', Some 0)] ''d1'' = (None, r') \<and> map_of r' ''d1'' = None)
   \<and> ID (devices_mem (mutate 0 demo_heap (SetID [])) ! 0) = []
   \<and> Create [] (mutate 0 demo_heap (SetID [])) (Some 0) =
        (Some (New ''device ID cannot be empty''), [], mutate 0 demo_heap (SetID []))
   \<and> Update [] (mutate 0 demo_heap (SetID [])) (Some 0) =
        (Some (New ''device ID cannot be empty''), [], mutate 0 demo_heap (SetID []))"
  using C7_store_error_contracts [where r = "[]" and h = demo_heap and p = 0 and ident = "''d1''"]
    C7_store_error_contracts [where r = "[(''d1'', Some 0)]" and h = demo_heap and p = 0
      and ident = "''d1''"]
    C7_store_error_contracts [where r = "[]" and h = "mutate 0 demo_heap (SetID [])" and p = 0
      and ident = "''d1''"]
  by (auto simp: demo_heap_def set_field_def)

section \<open>Copies are independent\<close>

lemma same_on_refl: "store_ok r h \<Longrightarrow> same_on r h h"
  by (auto simp: same_on_def store_ok_def)

lemma same_on_arrs: "same_on r h h2 \<Longrightarrow> repo_arrs r h2 = repo_arrs r h"
  by (auto simp: same_on_def repo_arrs_def keys_of_def)

lemma same_on_trans: "same_on r h h1 \<Longrightarrow> same_on r h1 h2 \<Longrightarrow> same_on r h h2"
  using same_on_arrs [of r h h1] by (auto simp: same_on_def)

lemma same_on_store_ok: "store_ok r h \<Longrightarrow> same_on r h h2 \<Longrightarrow> store_ok r h2"
  using same_on_arrs [of r h h2] by (auto simp: same_on_def store_ok_def)

lemma store_ok_valid: "store_ok r h \<Longrightarrow> a \<in> repo_devs r \<Longrightarrow> valid_dev h a"
  by (auto simp: store_ok_def valid_dev_def repo_arrs_def)

lemma same_on_bytes:
  assumes "same_on r h h2" and "a \<in> repo_devs r" and "set_option s \<subseteq> keys_of h a"
  shows "bytes_of h2 s = bytes_of h s"
proof (cases s)
  case None
  then show ?thesis by (simp add: bytes_of_def)
next
  case (Some x)
  with assms(2,3) have "x \<in> repo_arrs r h" by (auto simp: repo_arrs_def)
  with assms(1) Some show ?thesis by (simp add: same_on_def bytes_of_def)
qed

lemma same_on_view:
  assumes "same_on r h h2" and "a \<in> repo_devs r"
  shows "view h2 a = view h a"
proof -
  have d: "devices_mem h2 ! a = devices_mem h ! a" using assms by (simp add: same_on_def)
  have "bytes_of h2 (PublicKey (devices_mem h ! a)) = bytes_of h (PublicKey (devices_mem h ! a))"
    "bytes_of h2 (PrivateKey (devices_mem h ! a)) = bytes_of h (PrivateKey (devices_mem h ! a))"
    by (rule same_on_bytes [OF assms]; simp add: keys_of_def)+
  with d show ?thesis by (simp add: view_def)
qed

lemma map_of_repo_devs:
  "store_ok r h \<Longrightarrow> map_of r ident = Some device \<Longrightarrow> \<exists>a. device = Some a \<and> a \<in> repo_devs r"
proof -
  assume ok: "store_ok r h" and m: "map_of r ident = Some device"
  from m have mem: "(ident, device) \<in> set r" by (rule map_of_SomeD)
  have "device \<noteq> None"
  proof
    assume "device = None"
    with mem have "(ident, None) \<in> set r" by simp
    with ok show False by (simp add: store_ok_def)
  qed
  then obtain a where "device = Some a" by auto
  with mem show ?thesis by (auto simp: repo_devs_def)
qed

lemma observe_stored:
  assumes "store_ok r h"
  shows "observe r h ident =
           (case map_of r ident of None \<Rightarrow> Inl (New ''device not found'')
            | Some device \<Rightarrow> Inr (view h (the device)))"
proof (cases "map_of r ident")
  case None
  then show ?thesis by (simp add: observe_def Get_def)
next
  case (Some device)
  from map_of_repo_devs [OF assms Some] obtain a where a: "device = Some a" "a \<in> repo_devs r"
    by auto
  from Get_ok [OF Some [unfolded a(1)] store_ok_valid [OF assms a(2)]]
  show ?thesis using Some a by (auto simp: observe_def)
qed

lemma observe_frame:
  assumes "store_ok r h" and "same_on r h h2"
  shows "observe r h2 ident = observe r h ident"
proof -
  have ok2: "store_ok r h2" using assms by (rule same_on_store_ok)
  show ?thesis
  proof (cases "map_of r ident")
    case None
    then show ?thesis by (simp add: observe_stored [OF assms(1)] observe_stored [OF ok2])
  next
    case (Some device)
    from map_of_repo_devs [OF assms(1) Some] obtain a where "device = Some a" "a \<in> repo_devs r"
      by auto
    with Some same_on_view [OF assms(2)] show ?thesis
      by (simp add: observe_stored [OF assms(1)] observe_stored [OF ok2])
  qed
qed

lemma mutate_shape:
  assumes "p < length (devices_mem h)"
  shows "length (devices_mem (mutate p h m)) = length (devices_mem h)"
    and "\<forall>a. a \<noteq> p \<longrightarrow> devices_mem (mutate p h m) ! a = devices_mem h ! a"
    and "length (arrays_mem h) \<le> length (arrays_mem (mutate p h m))"
    and "\<forall>s < length (arrays_mem h). s \<notin> keys_of h p \<longrightarrow>
           arrays_mem (mutate p h m) ! s = arrays_mem h ! s"
    and "keys_of (mutate p h m) p \<subseteq>
           keys_of h p \<union> {length (arrays_mem h) ..< length (arrays_mem (mutate p h m))}"
  using assms
  by (cases m;
      auto simp: set_field_def make_slice_def new_bytes_def poke_def keys_of_def nth_append
        nth_list_update split: option.splits prod.splits)+

lemma outside_frame:
  assumes ok: "store_ok r h" and sep: "separate r h p"
    and 1: "length (devices_mem h2) = length (devices_mem h)"
    and 2: "\<forall>a. a \<noteq> p \<longrightarrow> devices_mem h2 ! a = devices_mem h ! a"
    and 3: "length (arrays_mem h) \<le> length (arrays_mem h2)"
    and 4: "\<forall>s < length (arrays_mem h). s \<notin> keys_of h p \<longrightarrow> arrays_mem h2 ! s = arrays_mem h ! s"
    and 5: "keys_of h2 p \<subseteq> keys_of h p \<union> {length (arrays_mem h) ..< length (arrays_mem h2)}"
  shows "same_on r h h2 \<and> separate r h2 p"
proof -
  have p: "p < length (devices_mem h)" "p \<notin> repo_devs r"
    and keys: "\<forall>s \<in> keys_of h p. s < length (arrays_mem h) \<and> s \<notin> repo_arrs r h"
    using sep by (auto simp: separate_def)
  have devs: "\<forall>a \<in> repo_devs r. a < length (devices_mem h)"
    and arrs: "\<forall>s \<in> repo_arrs r h. s < length (arrays_mem h)"
    using ok by (auto simp: store_ok_def)
  have same: "same_on r h h2"
    unfolding same_on_def
  proof (intro conjI ballI)
    fix a assume a: "a \<in> repo_devs r"
    then show "a < length (devices_mem h2)" using devs 1 by simp
    from a p have "a \<noteq> p" by auto
    then show "devices_mem h2 ! a = devices_mem h ! a" using 2 by simp
  next
    fix s assume s: "s \<in> repo_arrs r h"
    then show "s < length (arrays_mem h2)" using arrs 3 by fastforce
    from s keys have "s \<notin> keys_of h p" by auto
    with s arrs show "arrays_mem h2 ! s = arrays_mem h ! s" using 4 by simp
  qed
  have "separate r h2 p"
    unfolding separate_def same_on_arrs [OF same]
  proof (intro conjI ballI)
    show "p < length (devices_mem h2)" using p 1 by simp
    show "p \<notin> repo_devs r" by (rule p)
  next
    fix s assume "s \<in> keys_of h2 p"
    with 5 have "s \<in> keys_of h p \<or> (length (arrays_mem h) \<le> s \<and> s < length (arrays_mem h2))"
      by auto
    then show "s < length (arrays_mem h2)" using keys 3 by fastforce
  next
    fix s assume "s \<in> keys_of h2 p"
    with 5 have "s \<in> keys_of h p \<or> (length (arrays_mem h) \<le> s \<and> s < length (arrays_mem h2))"
      by auto
    then show "s \<notin> repo_arrs r h" using keys arrs by fastforce
  qed
  with same show ?thesis by simp
qed

lemma mutate_frame:
  assumes ok: "store_ok r h" and sep: "separate r h p"
  shows "same_on r h (mutate p h m) \<and> separate r (mutate p h m) p"
proof -
  have p: "p < length (devices_mem h)" using sep by (simp add: separate_def)
  show ?thesis
    by (rule outside_frame [OF ok sep mutate_shape [OF p]])
qed

lemma mutations_frame:
  assumes "store_ok r h" and "separate r h p"
  shows "same_on r h (foldl (mutate p) h ms) \<and> separate r (foldl (mutate p) h ms) p"
  using assms
proof (induction ms arbitrary: h)
  case Nil
  then show ?case by (simp add: same_on_refl)
next
  case (Cons m ms)
  note one = mutate_frame [OF Cons.prems, of m]
  have ok1: "store_ok r (mutate p h m)"
    using same_on_store_ok [OF Cons.prems(1)] one by blast
  from Cons.IH [OF ok1] one
  show ?case using same_on_trans by (simp, blast)
qed

lemma separate_valid: "separate r h p \<Longrightarrow> valid_dev h p"
  by (simp add: separate_def valid_dev_def)

lemma Clone_frame:
  assumes ok: "store_ok r h" and v: "valid_dev h a" and c: "Clone h (Some a) = (h', c)"
  shows "c = Some (length (devices_mem h))"
    and "same_on r h h'"
    and "separate r h' (length (devices_mem h))"
    and "separate r h q \<Longrightarrow> separate r h' q"
proof -
  note cl = Clone_Some [OF v c]
  let ?n = "length (devices_mem h)"
  have devs: "\<forall>a \<in> repo_devs r. a < ?n"
    and arrs: "\<forall>s \<in> repo_arrs r h. s < length (arrays_mem h)"
    using ok by (auto simp: store_ok_def)
  show "c = Some ?n" by (rule cl(1))
  show same: "same_on r h h'"
    unfolding same_on_def using devs arrs cl(2,3,4,5) by fastforce
  note ra = same_on_arrs [OF same]
  show "separate r h' ?n"
    unfolding separate_def ra
  proof (intro conjI ballI)
    show "?n < length (devices_mem h')" using cl(2) by simp
    show "?n \<notin> repo_devs r" using devs by auto
  next
    fix s assume "s \<in> keys_of h' ?n"
    with cl(7) have s: "length (arrays_mem h) \<le> s \<and> s < length (arrays_mem h')" by simp
    then show "s < length (arrays_mem h')" by simp
    from s arrs show "s \<notin> repo_arrs r h" by fastforce
  qed
  assume q: "separate r h q"
  then have ql: "q < ?n" by (simp add: separate_def)
  then have "devices_mem h' ! q = devices_mem h ! q" using cl(3) by simp
  then have "keys_of h' q = keys_of h q" by (simp add: keys_of_def)
  with q ql cl(2,4) show "separate r h' q"
    unfolding separate_def ra by fastforce
qed

lemma Get_frame:
  assumes ok: "store_ok r h" and g: "Get r h ident = (Inr c, h1)"
  shows "\<exists>p. c = Some p \<and> same_on r h h1 \<and> separate r h1 p"
proof -
  from g obtain device where m: "map_of r ident = Some device" and cl: "Clone h device = (h1, c)"
    by (auto simp: Get_def split: option.splits prod.splits)
  from map_of_repo_devs [OF ok m] obtain a where a: "device = Some a" "a \<in> repo_devs r" by auto
  note f = Clone_frame [OF ok store_ok_valid [OF ok a(2)] cl [unfolded a(1)]]
  from f(1,2,3) show ?thesis by blast
qed

lemma List_loop_frame:
  assumes "store_ok r h" and "set xs \<subseteq> set r"
    and "\<forall>c \<in> set acc. \<exists>q. c = Some q \<and> separate r h q"
    and "List_loop xs h acc = (ps, h1)"
  shows "same_on r h h1 \<and> (\<forall>c \<in> set ps. \<exists>q. c = Some q \<and> separate r h1 q)"
  using assms
proof (induction xs arbitrary: h acc)
  case Nil
  then show ?case by (simp add: same_on_refl)
next
  case (Cons x xs)
  obtain k device where x: "x = (k, device)" by (cases x)
  obtain h' c where cl: "Clone h device = (h', c)" by (cases "Clone h device")
  from Cons.prems(2) x have mem: "(k, device) \<in> set r" by simp
  have "device \<noteq> None"
  proof
    assume "device = None"
    with mem Cons.prems(1) show False by (simp add: store_ok_def)
  qed
  then obtain a where a: "device = Some a" by auto
  with mem have ar: "a \<in> repo_devs r" by (auto simp: repo_devs_def)
  note f = Clone_frame [OF Cons.prems(1) store_ok_valid [OF Cons.prems(1) ar] cl [unfolded a]]
  have ok': "store_ok r h'" using same_on_store_ok [OF Cons.prems(1) f(2)] .
  have acc': "\<forall>c \<in> set (acc @ [c]). \<exists>q. c = Some q \<and> separate r h' q"
    using Cons.prems(3) f(1,3,4) by auto
  have loop: "List_loop xs h' (acc @ [c]) = (ps, h1)"
    using Cons.prems(4) x cl by simp
  have sub: "set xs \<subseteq> set r" using Cons.prems(2) by simp
  from Cons.IH [OF ok' sub acc' loop] f(2) show ?case
    using same_on_trans by blast
qed

lemma List_frame:
  assumes ok: "store_ok r h" and l: "List r h = (Inr ps, h1)"
  shows "same_on r h h1 \<and> (\<forall>c \<in> set ps. \<exists>q. c = Some q \<and> separate r h1 q)"
proof -
  from l have "List_loop r h [] = (ps, h1)"
    by (auto simp: List_def split: prod.splits)
  from List_loop_frame [OF ok _ _ this] show ?thesis by simp
qed

lemma set_update_subset: "set (AList.update k v al) \<subseteq> insert (k, v) (set al)"
  by (induction al) auto

lemma store_frame:
  assumes ok: "store_ok r h" and sep: "separate r h p"
    and cl: "Clone h (Some p) = (h1, c)"
  shows "store_ok (AList.update k c r) h1 \<and> separate (AList.update k c r) h1 p"
proof -
  let ?n = "length (devices_mem h)"
  let ?r = "AList.update k c r"
  note v = separate_valid [OF sep]
  note shape = Clone_Some [OF v cl]
  note f = Clone_frame [OF ok v cl]
  have c: "c = Some ?n" by (rule f(1))
  have sub: "set ?r \<subseteq> insert (k, Some ?n) (set r)"
    unfolding c by (rule set_update_subset)
  have devs: "repo_devs ?r \<subseteq> insert ?n (repo_devs r)"
    using sub by (auto simp: repo_devs_def)
  have arrs: "repo_arrs ?r h1 \<subseteq> keys_of h1 ?n \<union> repo_arrs r h"
    using devs same_on_arrs [OF f(2)] by (auto simp: repo_arrs_def)
  have ok1: "store_ok r h1" using same_on_store_ok [OF ok f(2)] .
  have fresh: "\<forall>s \<in> keys_of h1 ?n. length (arrays_mem h) \<le> s \<and> s < length (arrays_mem h1)"
    by (rule shape(7))
  have "store_ok ?r h1"
    unfolding store_ok_def
  proof (intro conjI allI ballI)
    fix k' show "(k', None) \<notin> set ?r"
      using sub ok by (auto simp: store_ok_def)
  next
    fix a assume "a \<in> repo_devs ?r"
    with devs have "a = ?n \<or> a \<in> repo_devs r" by auto
    then show "a < length (devices_mem h1)"
      using ok1 shape(2) by (auto simp: store_ok_def)
  next
    fix s assume "s \<in> repo_arrs ?r h1"
    with arrs have "s \<in> keys_of h1 ?n \<or> s \<in> repo_arrs r h" by auto
    then show "s < length (arrays_mem h1)"
      using fresh ok shape(4) by (fastforce simp: store_ok_def)
  qed
  moreover have "separate ?r h1 p"
    unfolding separate_def
  proof (intro conjI ballI)
    have pl: "p < ?n" using v by (simp add: valid_dev_def)
    then show "p < length (devices_mem h1)" using shape(2) by simp
    show "p \<notin> repo_devs ?r"
      using devs pl sep by (auto simp: separate_def)
    have keq: "keys_of h1 p = keys_of h p"
      using shape(3) pl by (simp add: keys_of_def)
    fix s assume "s \<in> keys_of h1 p"
    then have s: "s \<in> keys_of h p" by (simp add: keq)
    then have sl: "s < length (arrays_mem h)" "s \<notin> repo_arrs r h"
      using sep by (auto simp: separate_def)
    then show "s < length (arrays_mem h1)" using shape(4) by simp
    have "s \<notin> keys_of h1 ?n" using fresh sl(1) by fastforce
    with sl(2) arrs show "s \<notin> repo_arrs ?r h1" by auto
  qed
  ultimately show ?thesis by simp
qed

lemma Create_frame:
  assumes ok: "store_ok r h" and sep: "separate r h p"
    and cr: "Create r h (Some p) = (None, r', h1)"
  shows "store_ok r' h1 \<and> separate r' h1 p"
proof -
  from cr obtain c where "Clone h (Some p) = (h1, c)"
    and "r' = AList.update (ID (devices_mem h ! p)) c r"
    by (auto simp: Create_def split: if_splits prod.splits)
  with store_frame [OF ok sep] show ?thesis by simp
qed

lemma Update_frame:
  assumes ok: "store_ok r h" and sep: "separate r h p"
    and up: "Update r h (Some p) = (None, r', h1)"
  shows "store_ok r' h1 \<and> separate r' h1 p"
proof -
  from up obtain c where "Clone h (Some p) = (h1, c)"
    and "r' = AList.update (ID (devices_mem h ! p)) c r"
    by (auto simp: Update_def split: if_splits prod.splits)
  with store_frame [OF ok sep] show ?thesis by simp
qed

lemma mutations_unobserved:
  assumes "store_ok r h" and "separate r h p"
  shows "observe r (foldl (mutate p) h ms) ident = observe r h ident"
  using mutations_frame [OF assms] observe_frame [OF assms(1)] by blast

text \<open>
  C8. The repository hands out and keeps independent copies. For a repository whose
  memory is well formed: a pointer returned by \<open>Get\<close>, and each pointer returned by
  \<open>List\<close>, is not nil, and after any sequence of the caller's statements on that
  device (assigning any field, replacing a key slice, storing bytes through the
  public or the private key slice) every \<open>Get\<close>, for every id, observes what it
  observed before the call. For a device of the caller that shares nothing with the
  repository and is accepted by \<open>Create\<close> or \<open>Update\<close>, any such sequence of
  statements on the argument after the call leaves what every \<open>Get\<close> observes as it
  was right after the call.
\<close>

theorem C8_copies_are_independent:
  "store_ok r h \<longrightarrow>
     (Get r h ident = (Inr c, h1) \<longrightarrow>
        (\<exists>p. c = Some p \<and>
           (\<forall>ms ident'. observe r (foldl (mutate p) h1 ms) ident' = observe r h ident')))
   \<and> (List r h = (Inr ps, h1) \<longrightarrow>
        (\<forall>c \<in> set ps. \<exists>p. c = Some p \<and>
           (\<forall>ms ident'. observe r (foldl (mutate p) h1 ms) ident' = observe r h ident')))
   \<and> (separate r h q \<and> Create r h (Some q) = (None, r', h1) \<longrightarrow>
        (\<forall>ms ident'. observe r' (foldl (mutate q) h1 ms) ident' = observe r' h1 ident'))
   \<and> (separate r h q \<and> Update r h (Some q) = (None, r', h1) \<longrightarrow>
        (\<forall>ms ident'. observe r' (foldl (mutate q) h1 ms) ident' = observe r' h1 ident'))"
proof (intro impI conjI)
  assume ok: "store_ok r h"
  {
    assume "Get r h ident = (Inr c, h1)"
    from Get_frame [OF ok this] obtain p where
      p: "c = Some p" "same_on r h h1" "separate r h1 p" by auto
    have ok1: "store_ok r h1" using same_on_store_ok [OF ok p(2)] .
    have "\<forall>ms ident'. observe r (foldl (mutate p) h1 ms) ident' = observe r h ident'"
      using mutations_unobserved [OF ok1 p(3)] observe_frame [OF ok p(2)] by simp
    with p(1) show "\<exists>p. c = Some p \<and>
           (\<forall>ms ident'. observe r (foldl (mutate p) h1 ms) ident' = observe r h ident')"
      by blast
  }
  {
    assume "List r h = (Inr ps, h1)"
    note l = List_frame [OF ok this]
    have ok1: "store_ok r h1" using same_on_store_ok [OF ok] l by blast
    show "\<forall>c \<in> set ps. \<exists>p. c = Some p \<and>
           (\<forall>ms ident'. observe r (foldl (mutate p) h1 ms) ident' = observe r h ident')"
    proof
      fix c assume "c \<in> set ps"
      with l obtain p where p: "c = Some p" "separate r h1 p" by blast
      have "\<forall>ms ident'. observe r (foldl (mutate p) h1 ms) ident' = observe r h ident'"
        using mutations_unobserved [OF ok1 p(2)] observe_frame [OF ok] l by simp
      with p(1) show "\<exists>p. c = Some p \<and>
           (\<forall>ms ident'. observe r (foldl (mutate p) h1 ms) ident' = observe r h ident')"
        by blast
    qed
  }
  {
    assume "separate r h q \<and> Create r h (Some q) = (None, r', h1)"
    then have "store_ok r' h1 \<and> separate r' h1 q" using Create_frame [OF ok] by blast
    then show "\<forall>ms ident'. observe r' (foldl (mutate q) h1 ms) ident' = observe r' h1 ident'"
      using mutations_unobserved by blast
  }
  {
    assume "separate r h q \<and> Update r h (Some q) = (None, r', h1)"
    then have "store_ok r' h1 \<and> separate r' h1 q" using Update_frame [OF ok] by blast
    then show "\<forall>ms ident'. observe r' (foldl (mutate q) h1 ms) ident' = observe r' h1 ident'"
      using mutations_unobserved by blast
  }
qed

lemmas store_eval =
  Create_def Get_def Update_def Delete_def List_def Clone_def copy_slice_def new_device_def
  new_bytes_def view_def bytes_of_def observe_def demo_heap_def cloned_heap_def Let_def

lemmas mutate_eval = set_field_def make_slice_def poke_def

lemma demo_valid: "valid_dev demo_heap 0"
  by (simp add: valid_dev_def keys_of_def demo_heap_def)

lemma demo_store_ok: "store_ok [(''d1'', Some 0)] demo_heap"
  by (auto simp: store_ok_def repo_devs_def repo_arrs_def keys_of_def demo_heap_def)

lemma demo_store_empty: "store_ok [] demo_heap"
  by (simp add: store_ok_def repo_devs_def repo_arrs_def)

lemma demo_separate: "separate [] demo_heap 0"
  by (simp add: separate_def repo_devs_def repo_arrs_def keys_of_def demo_heap_def)

lemma cloned_store_ok: "store_ok [(''d1'', Some 0)] cloned_heap"
  by (auto simp: store_ok_def repo_devs_def repo_arrs_def keys_of_def cloned_heap_def)

lemma cloned_separate: "separate [(''d1'', Some 0)] cloned_heap 1"
  by (auto simp: separate_def repo_devs_def repo_arrs_def keys_of_def cloned_heap_def)

lemma demo_get: "Get [(''d1'', Some 0)] demo_heap ''d1'' = (Inr (Some 1), cloned_heap)"
  by (simp add: store_eval)

lemma demo_list: "List [(''d1'', Some 0)] demo_heap = (Inr [Some 1], cloned_heap)"
  by (simp add: store_eval)

lemma demo_create: "Create [] demo_heap (Some 0) = (None, [(''d1'', Some 1)], cloned_heap)"
  by (simp add: store_eval)

lemma demo_update:
  "Update [(''d1'', Some 0)] cloned_heap (Some 1) =
     (None, fst (snd (Update [(''d1'', Some 0)] cloned_heap (Some 1))),
      snd (snd (Update [(''d1'', Some 0)] cloned_heap (Some 1))))"
  by (simp add: store_eval)

theorem C8_copies_are_independent_witness:
  "store_ok [(''d1'', Some 0)] demo_heap
   \<and> Get [(''d1'', Some 0)] demo_heap ''d1'' = (Inr (Some 1), cloned_heap)
   \<and> List [(''d1'', Some 0)] demo_heap = (Inr [Some 1], cloned_heap)
   \<and> observe [(''d1'', Some 0)]
        (foldl (mutate 1) cloned_heap
           [SetLabel ''X'', SetSignatureCounter 9, PokePrivateKey 0 (CHR ''Z''), SetPublicKey None])
        ''d1''
       = observe [(''d1'', Some 0)] demo_heap ''d1''
   \<and> view (foldl (mutate 1) cloned_heap
           [SetLabel ''X'', SetSignatureCounter 9, PokePrivateKey 0 (CHR ''Z''), SetPublicKey None]) 1
       = \<lparr>ID = ''d1'', Label = ''X'', Algorithm = ''RSA'', SignatureCounter = 9,
          LastSignature = ''ZDE='', PublicKey = None, PrivateKey = Some ''Zey''\<rparr>
   \<and> store_ok [] demo_heap \<and> separate [] demo_heap 0
   \<and> Create [] demo_heap (Some 0) = (None, [(''d1'', Some 1)], cloned_heap)
   \<and> observe [(''d1'', Some 1)]
        (foldl (mutate 0) cloned_heap [SetLabel ''X'', PokePublicKey 1 (CHR ''Z'')]) ''d1''
       = observe [(''d1'', Some 1)] cloned_heap ''d1''
   \<and> store_ok [(''d1'', Some 0)] cloned_heap \<and> separate [(''d1'', Some 0)] cloned_heap 1
   \<and> fst (Update [(''d1'', Some 0)] cloned_heap (Some 1)) = None
   \<and> observe (fst (snd (Update [(''d1'', Some 0)] cloned_heap (Some 1))))
        (foldl (mutate 1) (snd (snd (Update [(''d1'', Some 0)] cloned_heap (Some 1))))
           [SetLastSignature ''x'']) ''d1''
       = observe (fst (snd (Update [(''d1'', Some 0)] cloned_heap (Some 1))))
           (snd (snd (Update [(''d1'', Some 0)] cloned_heap (Some 1)))) ''d1''"
proof -
  note get = C8_copies_are_independent [THEN mp, OF demo_store_ok, THEN conjunct1, THEN mp,
      OF demo_get]
  note list = C8_copies_are_independent [THEN mp, OF demo_store_ok, THEN conjunct2,
      THEN conjunct1, THEN mp, OF demo_list]
  note create = C8_copies_are_independent [THEN mp, OF demo_store_empty, THEN conjunct2,
      THEN conjunct2, THEN conjunct1, THEN mp, OF conjI, OF demo_separate demo_create]
  note update = C8_copies_are_independent [THEN mp, OF cloned_store_ok, THEN conjunct2,
      THEN conjunct2, THEN conjunct2, THEN mp, OF conjI, OF cloned_separate demo_update]
  have v: "view (foldl (mutate 1) cloned_heap
           [SetLabel ''X'', SetSignatureCounter 9, PokePrivateKey 0 (CHR ''Z''), SetPublicKey None]) 1
       = \<lparr>ID = ''d1'', Label = ''X'', Algorithm = ''RSA'', SignatureCounter = 9,
          LastSignature = ''ZDE='', PublicKey = None, PrivateKey = Some ''Zey''\<rparr>"
    by (simp add: mutate_eval view_def bytes_of_def cloned_heap_def)
  have u: "fst (Update [(''d1'', Some 0)] cloned_heap (Some 1)) = None"
    by (simp add: store_eval)
  from get have g: "\<And>ms i. observe [(''d1'', Some 0)] (foldl (mutate 1) cloned_heap ms) i
      = observe [(''d1'', Some 0)] demo_heap i" by auto
  from list have "\<And>ms i. observe [(''d1'', Some 0)] (foldl (mutate 1) cloned_heap ms) i
      = observe [(''d1'', Some 0)] demo_heap i" by auto
  note c = create [rule_format]
  note up = update [rule_format]
  show ?thesis
    by (intro conjI)
       (rule demo_store_ok demo_get demo_list g v demo_store_empty demo_separate demo_create c
          cloned_store_ok cloned_separate u up)+
qed

end
